theory Spec2Isabelle
  imports Main
begin

section \<open>Values exchanged with the language model\<close>

text \<open>
  What \<^verbatim>\<open>json.loads\<close> can return: Python's \<^verbatim>\<open>None\<close>, \<^verbatim>\<open>bool\<close>, \<^verbatim>\<open>int\<close>, \<^verbatim>\<open>float\<close>
  (kept as the text of its literal), \<^verbatim>\<open>str\<close>, \<^verbatim>\<open>list\<close> and \<^verbatim>\<open>dict\<close> (an association list
  with one entry for each key).
\<close>

datatype json =
    JNull
  | JBool bool
  | JInt int
  | JFloat string
  | JStr string
  | JArr "json list"
  | JObj "(string \<times> json) list"

text \<open>
  Exceptions as values. \<^verbatim>\<open>ClassificationError\<close> is the one exception class of
  \<^verbatim>\<open>utils_groq_PT.py\<close>; its three messages are the three constructors of \<open>reason\<close>, the
  last one holding the two fields its f-string interpolates (\<^verbatim>\<open>max_retries\<close> and
  \<^verbatim>\<open>last_err\<close>). \<open>ApiException\<close> is whatever \<^verbatim>\<open>chat.completions.create\<close> raises, with
  its message.
\<close>

datatype exn =
    ApiException string
  | JSONDecodeError string
  | KeyError string
  | TypeError string
  | IndexError string
  | ValueError string
  | ClassificationError reason
and reason =
    DescriptionEmpty
  | EmptyResponse
  | FailedAfter int "exn option"

text \<open>
  One call of \<^verbatim>\<open>chat.completions.create\<close> either raises (an \<^verbatim>\<open>Exception\<close>, the kind every
  handler of the code catches) or returns a completion, of which the code reads only
  \<^verbatim>\<open>choices[i].message.content\<close>: a completion is the list of the contents of its
  choices, each a string or \<^verbatim>\<open>None\<close>.
\<close>

datatype outcome =
    Raises exn
  | Returns "string option list"

section \<open>Strings\<close>

text \<open>
  \<^verbatim>\<open>str.isspace\<close> on the characters below code point 256, and \<^verbatim>\<open>str.strip()\<close>, which
  removes those characters at both ends.
\<close>

definition isspace :: "char \<Rightarrow> bool" where
  "isspace c = ((of_char c :: nat) \<in> {9, 10, 11, 12, 13, 28, 29, 30, 31, 32, 133, 160})"

definition lstrip :: "string \<Rightarrow> string" where
  "lstrip s = dropWhile isspace s"

definition rstrip :: "string \<Rightarrow> string" where
  "rstrip s = rev (dropWhile isspace (rev s))"

definition strip :: "string \<Rightarrow> string" where
  "strip s = rstrip (lstrip s)"

text \<open>\<^verbatim>\<open>str.lower()\<close> on the same characters, and the substring test \<^verbatim>\<open>needle in hay\<close>.\<close>

definition lower_char :: "char \<Rightarrow> char" where
  "lower_char c =
     (let n = (of_char c :: nat)
      in if (65 \<le> n \<and> n \<le> 90) \<or> (192 \<le> n \<and> n \<le> 214) \<or> (216 \<le> n \<and> n \<le> 222)
         then char_of (n + 32) else c)"

definition lower :: "string \<Rightarrow> string" where
  "lower s = map lower_char s"

fun starts_with :: "string \<Rightarrow> string \<Rightarrow> bool" where
  "starts_with [] hay = True"
| "starts_with (c # cs) [] = False"
| "starts_with (c # cs) (h # hs) = (c = h \<and> starts_with cs hs)"

fun str_in :: "string \<Rightarrow> string \<Rightarrow> bool" where
  "str_in needle [] = (needle = [])"
| "str_in needle (h # hs) = (starts_with needle (h # hs) \<or> str_in needle hs)"

section \<open>Subscripting and membership on a parsed payload\<close>

definition quoted :: "string \<Rightarrow> string" where
  "quoted s = [CHR 0x27] @ s @ [CHR 0x27]"

fun type_name :: "json \<Rightarrow> string" where
  "type_name JNull = ''NoneType''"
| "type_name (JBool b) = ''bool''"
| "type_name (JInt i) = ''int''"
| "type_name (JFloat f) = ''float''"
| "type_name (JStr s) = ''str''"
| "type_name (JArr xs) = ''list''"
| "type_name (JObj kvs) = ''dict''"

text \<open>
  \<^verbatim>\<open>payload[key]\<close> with a string key: the value of a dict, \<^verbatim>\<open>KeyError\<close> when the key is
  missing, \<^verbatim>\<open>TypeError\<close> on every other kind of value.
\<close>

fun getitem :: "json \<Rightarrow> string \<Rightarrow> exn + json" where
  "getitem (JObj kvs) k =
     (case map_of kvs k of None \<Rightarrow> Inl (KeyError (quoted k)) | Some v \<Rightarrow> Inr v)"
| "getitem (JArr xs) k = Inl (TypeError ''list indices must be integers or slices, not str'')"
| "getitem (JStr s) k = Inl (TypeError (''string indices must be integers, not '' @ quoted ''str''))"
| "getitem v k = Inl (TypeError (quoted (type_name v) @ '' object is not subscriptable''))"

text \<open>
  \<^verbatim>\<open>key in payload\<close>: a key of a dict, an element of a list, a substring of a string,
  \<^verbatim>\<open>TypeError\<close> otherwise.
\<close>

fun contains :: "json \<Rightarrow> string \<Rightarrow> exn + bool" where
  "contains (JObj kvs) k = Inr (map_of kvs k \<noteq> None)"
| "contains (JArr xs) k = Inr (JStr k \<in> set xs)"
| "contains (JStr s) k = Inr (str_in k s)"
| "contains v k = Inl (TypeError (''argument of type '' @ quoted (type_name v) @ '' is not iterable''))"

section \<open>The classifier of \<^verbatim>\<open>utils_groq_PT.py\<close>\<close>

text \<open>
  The closed vocabularies, as the prompt template \<^verbatim>\<open>_PROMPT\<close> enumerates them, with the
  two answers the template prescribes for unsafe and for irrelevant descriptions.
\<close>

definition x_vocabulary :: "string list" where
  "x_vocabulary =
   [''Does not have grammar'',
    ''Does not Demonstrate Understanding Only'',
    ''Is not Precise and To the Point'',
    ''Lacks Visual Clarity'',
    ''Info is not Well-Structured and Is not Easy to Understand'',
    ''Does not have Grammar + Lacks Visual Clarity'',
    ''Has some Grammar'',
    ''Demonstrates some Understanding'',
    ''Is somewhat Precise and To the Point'',
    ''Has some Visual Clarity'',
    ''Info is somewhat Well-Structured and fairly Easy to Understand'',
    ''Has some Grammar + Has some Visual Clarity'',
    ''Has Very Good Grammar + Demonstrates Very Good Understanding'',
    ''Has Very Good Grammar + Has Clear Visual Clarity'',
    ''Is Precise and To the Point + Has Clear Visual Clarity'',
    ''Has Very Good Grammar + Demonstrates Very Good Understanding + Has Clear Visual Clarity'',
    ''Content Not Appropriate for Age Group'',
    ''Not Relevant'']"

definition y_vocabulary :: "string list" where
  "y_vocabulary =
   [''Clear Product/Service Description'',
    ''Prototype Status'',
    ''Unique Value Statement'',
    ''User Interaction Description'',
    ''Technical/Practical Feasibility Evidence'',
    ''Product Description + Prototype Status'',
    ''Product Description + Unique Value Statement'',
    ''Product Description + User Interaction Description'',
    ''Product Description + Technical/Practical Feasibility Evidence'',
    ''Prototype Status + Unique Value Statement'',
    ''Prototype Status + User Interaction Description'',
    ''Prototype Status + Technical/Practical Feasibility Evidence'',
    ''Unique Value Statement + User Interaction Description'',
    ''Unique Value Statement + Technical/Practical Feasibility Evidence'',
    ''User Interaction Description + Technical/Practical Feasibility Evidence'',
    ''Product Description + Prototype Status + Unique Value Statement'',
    ''Product Description + Prototype Status + User Interaction Description'',
    ''Product Description + Prototype Status + Technical/Practical Feasibility Evidence'',
    ''Product Description + Unique Value Statement + User Interaction Description'',
    ''Product Description + Unique Value Statement + Technical/Practical Feasibility Evidence'',
    ''Product Description + User Interaction Description + Technical/Practical Feasibility Evidence'',
    ''Prototype Status + Unique Value Statement + User Interaction Description'',
    ''Prototype Status + Unique Value Statement + Technical/Practical Feasibility Evidence'',
    ''Prototype Status + User Interaction Description + Technical/Practical Feasibility Evidence'',
    ''Unique Value Statement + User Interaction Description + Technical/Practical Feasibility Evidence'',
    ''Product Description + Prototype Status + Unique Value Statement + User Interaction Description'',
    ''Product Description + Prototype Status + Unique Value Statement + Technical/Practical Feasibility Evidence'',
    ''Product Description + Prototype Status + User Interaction Description + Technical/Practical Feasibility Evidence'',
    ''Product Description + Unique Value Statement + User Interaction Description + Technical/Practical Feasibility Evidence'',
    ''Prototype Status + Unique Value Statement + User Interaction Description + Technical/Practical Feasibility Evidence'',
    ''Clear Product/Service Description + Prototype Status + Unique Value Statement + User Interaction Description + Technical/Practical Feasibility Evidence'',
    ''Content Safety Exception'',
    ''Not Relevant'']"

text \<open>
  What the code takes from outside the repository, as parameters:
  \<^item> \<open>GROQ_API_KEY\<close>: \<^verbatim>\<open>os.environ.get("GROQ_API_KEY")\<close>;
  \<^item> \<open>md5_hexdigest\<close>: \<^verbatim>\<open>hashlib.md5(text.encode()).hexdigest()\<close>;
  \<^item> \<open>json_loads\<close>: \<^verbatim>\<open>json.loads\<close>, which returns a value or raises;
  \<^item> \<open>async_create\<close> and \<open>sync_create\<close>: \<^verbatim>\<open>chat.completions.create\<close> of the asynchronous
    and of the synchronous client. The language model is any function of the requests
    sent so far, the newest first;
  \<^item> \<open>PROMPT_head\<close> and \<open>PROMPT_tail\<close>: the text of \<^verbatim>\<open>_PROMPT\<close> before and after its
    \<^verbatim>\<open>{description}\<close> field, the doubled braces already replaced.
\<close>

record env =
  GROQ_API_KEY :: "string option"
  md5_hexdigest :: "string \<Rightarrow> string"
  json_loads :: "string \<Rightarrow> exn + json"
  async_create :: "string list \<Rightarrow> outcome"
  sync_create :: "string list \<Rightarrow> outcome"
  PROMPT_head :: string
  PROMPT_tail :: string

text \<open>
  The fields of a classifier object that the calls read or write, with a log of the
  requests sent to the model (\<open>calls\<close>, the newest first) and of the delays slept
  (\<open>sleeps\<close>, in seconds, the newest first). The cache is the \<^verbatim>\<open>OrderedDict\<close>, the oldest
  entry first.
\<close>

type_synonym cache = "(string \<times> (json \<times> json)) list"

record io =
  calls :: "string list"
  sleeps :: "nat list"

record classifier = io +
  cache :: cache
  cache_size :: int
  max_retries :: int

subsection \<open>The ordered dictionary\<close>

text \<open>\<^verbatim>\<open>k in d\<close>.\<close>

definition od_contains :: "string \<Rightarrow> cache \<Rightarrow> bool" where
  "od_contains k c = (k \<in> fst ` set c)"

text \<open>\<^verbatim>\<open>d[k] = v\<close>: an existing key keeps its place, a new key goes to the end.\<close>

fun od_setitem :: "string \<Rightarrow> json \<times> json \<Rightarrow> cache \<Rightarrow> cache" where
  "od_setitem k v [] = [(k, v)]"
| "od_setitem k v (p # ps) = (if fst p = k then (k, v) # ps else p # od_setitem k v ps)"

text \<open>\<^verbatim>\<open>d.move_to_end(k)\<close>; Python raises \<^verbatim>\<open>KeyError\<close> on a missing key.\<close>

definition move_to_end :: "string \<Rightarrow> cache \<Rightarrow> exn + cache" where
  "move_to_end k c =
     (case map_of c k of
        None \<Rightarrow> Inl (KeyError (quoted k))
      | Some v \<Rightarrow> Inr (filter (\<lambda>p. fst p \<noteq> k) c @ [(k, v)]))"

text \<open>\<^verbatim>\<open>d.popitem(last=False)\<close>; Python raises \<^verbatim>\<open>KeyError\<close> on an empty dictionary.\<close>

fun popitem_first :: "cache \<Rightarrow> exn + cache" where
  "popitem_first [] = Inl (KeyError ''dictionary is empty'')"
| "popitem_first (p # ps) = Inr ps"

subsection \<open>Helpers\<close>

definition hash :: "env \<Rightarrow> string \<Rightarrow> string" where
  "hash E text = take 16 (md5_hexdigest E text)"

definition X_KEY :: string where
  "X_KEY = ''X_Axis_Rubric_Category''"

definition Y_KEY :: string where
  "Y_KEY = ''Y_Axis_Rubric_Category''"

definition parse_response_and_update_cache ::
  "env \<Rightarrow> string \<Rightarrow> string \<Rightarrow> classifier \<Rightarrow> (exn + json \<times> json) \<times> classifier" where
  "parse_response_and_update_cache E response_text cache_key s =
     (case json_loads E response_text of
        Inl e \<Rightarrow> (Inl e, s)
      | Inr payload \<Rightarrow>
          (case getitem payload X_KEY of
             Inl e \<Rightarrow> (Inl e, s)
           | Inr x_cat \<Rightarrow>
               (case getitem payload Y_KEY of
                  Inl e \<Rightarrow> (Inl e, s)
                | Inr y_cat \<Rightarrow>
                    (let s1 = s\<lparr>cache := od_setitem cache_key (x_cat, y_cat) (cache s)\<rparr>
                     in if int (length (cache s1)) > cache_size s1
                        then (case popitem_first (cache s1) of
                                Inl e \<Rightarrow> (Inl e, s1)
                              | Inr c \<Rightarrow> (Inr (x_cat, y_cat), s1\<lparr>cache := c\<rparr>))
                        else (Inr (x_cat, y_cat), s1)))))"

definition format_prompt :: "env \<Rightarrow> string \<Rightarrow> string" where
  "format_prompt E description = PROMPT_head E @ description @ PROMPT_tail E"

subsection \<open>\<^verbatim>\<open>classify\<close>\<close>

text \<open>
  The body of the \<^verbatim>\<open>try\<close> block of one attempt: the request is sent, the content of the
  first choice read, an empty content refused, the rest parsed and cached. \<open>Inl\<close> is the
  exception the block raises.
\<close>

definition classify_try ::
  "env \<Rightarrow> string \<Rightarrow> string \<Rightarrow> classifier \<Rightarrow> (exn + json \<times> json) \<times> classifier" where
  "classify_try E prompt key s =
     (let s1 = s\<lparr>calls := prompt # calls s\<rparr>
      in case async_create E (calls s1) of
           Raises e \<Rightarrow> (Inl e, s1)
         | Returns choices \<Rightarrow>
             (case choices of
                [] \<Rightarrow> (Inl (IndexError ''list index out of range''), s1)
              | content # _ \<Rightarrow>
                  (case content of
                     None \<Rightarrow> (Inl (ClassificationError EmptyResponse), s1)
                   | Some text \<Rightarrow>
                       if text = [] then (Inl (ClassificationError EmptyResponse), s1)
                       else parse_response_and_update_cache E text key s1)))"

text \<open>
  The loop \<^verbatim>\<open>for attempt in range(1, self.max_retries + 1)\<close>, over the list of its
  attempt numbers: an exception of the attempt is kept in \<^verbatim>\<open>last_err\<close>, a second is slept,
  and the next attempt follows; after the last one \<^verbatim>\<open>ClassificationError\<close> is raised.
\<close>

fun classify_for ::
  "env \<Rightarrow> string \<Rightarrow> string \<Rightarrow> int list \<Rightarrow> exn option \<Rightarrow> classifier
   \<Rightarrow> (exn + json \<times> json) \<times> classifier" where
  "classify_for E prompt key [] last_err s =
     (Inl (ClassificationError (FailedAfter (max_retries s) last_err)), s)"
| "classify_for E prompt key (attempt # rest) last_err s =
     (case classify_try E prompt key s of
        (Inr result, s1) \<Rightarrow> (Inr result, s1)
      | (Inl err, s1) \<Rightarrow>
          classify_for E prompt key rest (Some err) (s1\<lparr>sleeps := 1 # sleeps s1\<rparr>))"

definition classify :: "env \<Rightarrow> string \<Rightarrow> classifier \<Rightarrow> (exn + json \<times> json) \<times> classifier" where
  "classify E description0 s =
     (let description = strip description0
      in if description = [] then (Inl (ClassificationError DescriptionEmpty), s)
         else
           (let key = hash E description
            in if od_contains key (cache s)
               then (case move_to_end key (cache s) of
                       Inl e \<Rightarrow> (Inl e, s)
                     | Inr c \<Rightarrow>
                         (let s1 = s\<lparr>cache := c\<rparr>
                          in case map_of (cache s1) key of
                               None \<Rightarrow> (Inl (KeyError (quoted key)), s1)
                             | Some result \<Rightarrow> (Inr result, s1)))
               else
                 (let prompt = format_prompt E (take 2000 description)
                  in classify_for E prompt key [1..max_retries s] None s)))"

subsection \<open>\<^verbatim>\<open>classify_sync\<close>\<close>

text \<open>
  The synchronous twin, written out in the source a second time: the synchronous client
  and \<^verbatim>\<open>time.sleep\<close> in place of the asynchronous client and \<^verbatim>\<open>asyncio.sleep\<close>.
\<close>

definition classify_sync_try ::
  "env \<Rightarrow> string \<Rightarrow> string \<Rightarrow> classifier \<Rightarrow> (exn + json \<times> json) \<times> classifier" where
  "classify_sync_try E prompt key s =
     (let s1 = s\<lparr>calls := prompt # calls s\<rparr>
      in case sync_create E (calls s1) of
           Raises e \<Rightarrow> (Inl e, s1)
         | Returns choices \<Rightarrow>
             (case choices of
                [] \<Rightarrow> (Inl (IndexError ''list index out of range''), s1)
              | content # _ \<Rightarrow>
                  (case content of
                     None \<Rightarrow> (Inl (ClassificationError EmptyResponse), s1)
                   | Some text \<Rightarrow>
                       if text = [] then (Inl (ClassificationError EmptyResponse), s1)
                       else parse_response_and_update_cache E text key s1)))"

fun classify_sync_for ::
  "env \<Rightarrow> string \<Rightarrow> string \<Rightarrow> int list \<Rightarrow> exn option \<Rightarrow> classifier
   \<Rightarrow> (exn + json \<times> json) \<times> classifier" where
  "classify_sync_for E prompt key [] last_err s =
     (Inl (ClassificationError (FailedAfter (max_retries s) last_err)), s)"
| "classify_sync_for E prompt key (attempt # rest) last_err s =
     (case classify_sync_try E prompt key s of
        (Inr result, s1) \<Rightarrow> (Inr result, s1)
      | (Inl err, s1) \<Rightarrow>
          classify_sync_for E prompt key rest (Some err) (s1\<lparr>sleeps := 1 # sleeps s1\<rparr>))"

definition classify_sync ::
  "env \<Rightarrow> string \<Rightarrow> classifier \<Rightarrow> (exn + json \<times> json) \<times> classifier" where
  "classify_sync E description0 s =
     (let description = strip description0
      in if description = [] then (Inl (ClassificationError DescriptionEmpty), s)
         else
           (let key = hash E description
            in if od_contains key (cache s)
               then (case move_to_end key (cache s) of
                       Inl e \<Rightarrow> (Inl e, s)
                     | Inr c \<Rightarrow>
                         (let s1 = s\<lparr>cache := c\<rparr>
                          in case map_of (cache s1) key of
                               None \<Rightarrow> (Inl (KeyError (quoted key)), s1)
                             | Some result \<Rightarrow> (Inr result, s1)))
               else
                 (let prompt = format_prompt E (take 2000 description)
                  in classify_sync_for E prompt key [1..max_retries s] None s)))"

subsection \<open>Calls in a row\<close>

text \<open>
  The constructor's part of the state: an empty cache, an empty log and the two settings.
\<close>

definition new_classifier :: "int \<Rightarrow> int \<Rightarrow> classifier" where
  "new_classifier retries capacity =
     \<lparr>calls = [], sleeps = [], cache = [], cache_size = capacity, max_retries = retries\<rparr>"

text \<open>
  \<^verbatim>\<open>classify\<close> called on each text of a list in turn, each call awaited before the next
  one starts; the results are kept in the order of the texts.
\<close>

fun classify_each ::
  "env \<Rightarrow> string list \<Rightarrow> classifier \<Rightarrow> (exn + json \<times> json) list \<times> classifier" where
  "classify_each E [] s = ([], s)"
| "classify_each E (d # ds) s =
     (case classify E d s of
        (r, s1) \<Rightarrow> (case classify_each E ds s1 of (rs, s2) \<Rightarrow> (r # rs, s2)))"

subsection \<open>\<^verbatim>\<open>classify_batch\<close>\<close>

text \<open>
  A worker of \<^verbatim>\<open>classify_batch\<close> for one description: waiting at \<^verbatim>\<open>async with semaphore\<close>,
  inside it (awaiting \<^verbatim>\<open>self.classify(desc)\<close>), or finished with what that call gave, a
  pair or an exception.
\<close>

datatype worker =
    Pending string
  | InFlight string
  | Done string "exn + json \<times> json"

text \<open>
  The batch: its workers in the order of \<^verbatim>\<open>descriptions\<close>, the value of the semaphore,
  and the exception that \<^verbatim>\<open>asyncio.gather\<close> has raised to the caller, if any.
\<close>

record batch =
  workers :: "worker list"
  permits :: nat
  raised :: "exn option"

text \<open>
  \<^verbatim>\<open>asyncio.Semaphore(max_concurrent)\<close> raises \<^verbatim>\<open>ValueError\<close> on a negative value; otherwise
  one worker is created for each description, all of them waiting.
\<close>

definition classify_batch_start :: "string list \<Rightarrow> int \<Rightarrow> exn + batch" where
  "classify_batch_start descriptions max_concurrent =
     (if max_concurrent < 0 then Inl (ValueError ''Semaphore initial value must be >= 0'')
      else Inr \<lparr>workers = map Pending descriptions, permits = nat max_concurrent,
                raised = None\<rparr>)"

text \<open>
  The event loop decides which worker moves next, so the steps are a relation. A worker
  enters when the semaphore has a permit and takes it. A worker inside leaves with the
  result of its call, whatever that is, and gives the permit back, also when the call
  raised; \<^verbatim>\<open>gather\<close> passes the first exception raised on to the caller.
\<close>

fun first_raised :: "exn option \<Rightarrow> exn + json \<times> json \<Rightarrow> exn option" where
  "first_raised None (Inl e) = Some e"
| "first_raised already r = already"

inductive batch_step :: "batch \<Rightarrow> batch \<Rightarrow> bool" where
  enter: "i < length (workers b) \<Longrightarrow> workers b ! i = Pending d \<Longrightarrow> 0 < permits b \<Longrightarrow>
     batch_step b (b\<lparr>workers := (workers b)[i := InFlight d], permits := permits b - 1\<rparr>)"
| leave: "i < length (workers b) \<Longrightarrow> workers b ! i = InFlight d \<Longrightarrow>
     batch_step b (b\<lparr>workers := (workers b)[i := Done d r], permits := permits b + 1,
                     raised := first_raised (raised b) r\<rparr>)"

inductive batch_reachable :: "string list \<Rightarrow> int \<Rightarrow> batch \<Rightarrow> bool" where
  start: "classify_batch_start descriptions max_concurrent = Inr b \<Longrightarrow>
     batch_reachable descriptions max_concurrent b"
| step: "batch_reachable descriptions max_concurrent b \<Longrightarrow> batch_step b b' \<Longrightarrow>
     batch_reachable descriptions max_concurrent b'"

fun description :: "worker \<Rightarrow> string" where
  "description (Pending d) = d"
| "description (InFlight d) = d"
| "description (Done d r) = d"

fun is_in_flight :: "worker \<Rightarrow> bool" where
  "is_in_flight (InFlight d) = True"
| "is_in_flight w = False"

definition in_flight :: "batch \<Rightarrow> nat" where
  "in_flight b = length (filter is_in_flight (workers b))"

text \<open>
  \<^verbatim>\<open>asyncio.gather\<close> collects the pairs in the order of the workers, once every worker
  has returned one.
\<close>

fun gather :: "worker list \<Rightarrow> (json \<times> json) list option" where
  "gather [] = Some []"
| "gather (Done d (Inr v) # ws) = (case gather ws of None \<Rightarrow> None | Some vs \<Rightarrow> Some (v # vs))"
| "gather (w # ws) = None"

text \<open>What the caller of \<^verbatim>\<open>classify_batch\<close> has got so far.\<close>

datatype awaited =
    NotYet
  | Raised exn
  | Returned "(json \<times> json) list"

definition classify_batch_result :: "batch \<Rightarrow> awaited" where
  "classify_batch_result b =
     (case raised b of
        Some e \<Rightarrow> Raised e
      | None \<Rightarrow> (case gather (workers b) of None \<Rightarrow> NotYet | Some rs \<Rightarrow> Returned rs))"

section \<open>\<^verbatim>\<open>classify_problem_statement\<close> of \<^verbatim>\<open>utlis_groq.py\<close>\<close>

text \<open>
  The envelope is a Python dict whose values are a bool, a string or the dict of the two
  categories.
\<close>

datatype pyval =
    PBool bool
  | PStr string
  | PDict "(string \<times> json) list"

type_synonym envelope = "(string \<times> pyval) list"

text \<open>\<^verbatim>\<open>str(e)\<close> of an exception, with \<^verbatim>\<open>str\<close> of an integer for the one message that has one.\<close>

fun digits :: "nat \<Rightarrow> string" where
  "digits n = (if n < 10 then [char_of (48 + n)] else digits (n div 10) @ [char_of (48 + n mod 10)])"

definition str_int :: "int \<Rightarrow> string" where
  "str_int i = (if i < 0 then ''-'' @ digits (nat (- i)) else digits (nat i))"

fun str_exn :: "exn \<Rightarrow> string" and str_reason :: "reason \<Rightarrow> string" where
  "str_exn (ApiException m) = m"
| "str_exn (JSONDecodeError m) = m"
| "str_exn (KeyError m) = m"
| "str_exn (TypeError m) = m"
| "str_exn (IndexError m) = m"
| "str_exn (ValueError m) = m"
| "str_exn (ClassificationError r) = str_reason r"
| "str_reason DescriptionEmpty = ''Description cannot be empty.''"
| "str_reason EmptyResponse = ''API returned an empty response.''"
| "str_reason (FailedAfter n None) =
     ''Classification failed after '' @ str_int n @ '' attempts: None''"
| "str_reason (FailedAfter n (Some e)) =
     ''Classification failed after '' @ str_int n @ '' attempts: '' @ str_exn e"

definition failure :: "string \<Rightarrow> envelope" where
  "failure msg = [(''success'', PBool False), (''error'', PStr msg)]"

definition parse_failure :: "string \<Rightarrow> string \<Rightarrow> envelope" where
  "parse_failure msg response_text =
     [(''success'', PBool False), (''error'', PStr msg), (''raw_response'', PStr response_text)]"

text \<open>\<^verbatim>\<open>all(key in parsed_json for key in required_keys)\<close>, which stops at the first miss.\<close>

fun all_in :: "json \<Rightarrow> string list \<Rightarrow> exn + bool" where
  "all_in parsed_json [] = Inr True"
| "all_in parsed_json (key # keys) =
     (case contains parsed_json key of
        Inl e \<Rightarrow> Inl e
      | Inr b \<Rightarrow> if b then all_in parsed_json keys else Inr False)"

text \<open>The two \<^verbatim>\<open>except\<close> clauses of \<^verbatim>\<open>_parse_classification_response\<close>.\<close>

fun parse_except :: "exn \<Rightarrow> string \<Rightarrow> envelope" where
  "parse_except (JSONDecodeError m) response_text =
     parse_failure (''Failed to parse JSON from response: '' @ m) response_text"
| "parse_except e response_text =
     parse_failure (''Error processing response: '' @ str_exn e) response_text"

definition parse_classification_response :: "env \<Rightarrow> string \<Rightarrow> envelope" where
  "parse_classification_response E response_text =
     (case json_loads E response_text of
        Inl e \<Rightarrow> parse_except e response_text
      | Inr parsed_json \<Rightarrow>
          (case all_in parsed_json [X_KEY, Y_KEY] of
             Inl e \<Rightarrow> parse_except e response_text
           | Inr present \<Rightarrow>
               if \<not> present
               then parse_failure ''JSON response missing required keys.'' response_text
               else
                 (case getitem parsed_json X_KEY of
                    Inl e \<Rightarrow> parse_except e response_text
                  | Inr x \<Rightarrow>
                      (case getitem parsed_json Y_KEY of
                         Inl e \<Rightarrow> parse_except e response_text
                       | Inr y \<Rightarrow>
                           [(''success'', PBool True),
                            (''data'', PDict [(X_KEY, x), (Y_KEY, y)])]))))"

definition user_prompt :: "string \<Rightarrow> string \<Rightarrow> string" where
  "user_prompt idea_text problem_statement_text =
     [CHR 0x0A] @ ''**IDEA PROVIDED:**'' @ [CHR 0x0A] @ idea_text @ [CHR 0x0A, CHR 0x0A]
     @ ''**PROBLEM STATEMENT TO EVALUATE:**'' @ [CHR 0x0A] @ problem_statement_text @ [CHR 0x0A]"

text \<open>
  The content the loop goes on with: none when
  \<^verbatim>\<open>not response.choices or not response.choices[0].message.content\<close>.
\<close>

definition first_content :: "string option list \<Rightarrow> string option" where
  "first_content choices =
     (case choices of
        [] \<Rightarrow> None
      | content # _ \<Rightarrow>
          (case content of None \<Rightarrow> None | Some text \<Rightarrow> if text = [] then None else Some text))"

definition ps_max_retries :: nat where
  "ps_max_retries = 3"

text \<open>
  The loop \<^verbatim>\<open>for attempt in range(max_retries)\<close> over the list of its attempt numbers.
  The result \<open>None\<close> is the loop running off its end, where Python returns \<^verbatim>\<open>None\<close> in
  place of an envelope.
\<close>

fun ps_for :: "env \<Rightarrow> string \<Rightarrow> nat list \<Rightarrow> io \<Rightarrow> envelope option \<times> io" where
  "ps_for E prompt [] s = (None, s)"
| "ps_for E prompt (attempt # rest) s =
     (let s1 = s\<lparr>calls := prompt # calls s\<rparr>
      in case sync_create E (calls s1) of
           Returns choices \<Rightarrow>
             (case first_content choices of
                None \<Rightarrow>
                  if attempt < ps_max_retries - 1
                  then ps_for E prompt rest (s1\<lparr>sleeps := 2 ^ attempt # sleeps s1\<rparr>)
                  else (Some (failure ''Empty response from API''), s1)
              | Some text \<Rightarrow> (Some (parse_classification_response E text), s1))
         | Raises e \<Rightarrow>
             (let error_msg = str_exn e
              in if str_in ''authentication'' (lower error_msg)
                 then (Some (failure ''Invalid API key. Please check your OPENAI_API_KEY.''), s1)
                 else if str_in ''rate_limit'' (lower error_msg)
                 then (Some (failure
                         ''API rate limit exceeded. Please check your API usage limits.''), s1)
                 else if attempt < ps_max_retries - 1
                 then ps_for E prompt rest (s1\<lparr>sleeps := 2 ^ attempt # sleeps s1\<rparr>)
                 else (Some (failure (''An unexpected error occurred: '' @ error_msg)), s1)))"

text \<open>
  The function: the two tests of the key, then the loop. The client is built from a key
  that is present; the test \<^verbatim>\<open>if not client\<close> that follows never holds, a client object
  being true.
\<close>

definition classify_problem_statement ::
  "env \<Rightarrow> string \<Rightarrow> string \<Rightarrow> io \<Rightarrow> envelope option \<times> io" where
  "classify_problem_statement E idea_text problem_statement_text s =
     (case GROQ_API_KEY E of
        None \<Rightarrow>
          (Some (failure
             ''GROQ_API_KEY not found. Please create a .env file and add your key.''), s)
      | Some api_key \<Rightarrow>
          if api_key = []
          then (Some (failure
                  ''GROQ_API_KEY not found. Please create a .env file and add your key.''), s)
          else if length (strip api_key) < 10
          then (Some (failure ''API key appears to be invalid (too short).''), s)
          else ps_for E (user_prompt idea_text problem_statement_text) [0..<ps_max_retries] s)"

section \<open>Notions used to state the properties\<close>

text \<open>
  What the \<^verbatim>\<open>try\<close> block of an attempt makes of the outcome of its request, the state
  left aside: the exception it raises (\<open>Inl\<close>) or the pair it returns (\<open>Inr\<close>), which is
  the pair of values found under the two keys, whatever they are.
\<close>

definition response_result :: "env \<Rightarrow> outcome \<Rightarrow> exn + json \<times> json" where
  "response_result E out =
     (case out of
        Raises e \<Rightarrow> Inl e
      | Returns choices \<Rightarrow>
          (case choices of
             [] \<Rightarrow> Inl (IndexError ''list index out of range'')
           | content # _ \<Rightarrow>
               (case content of
                  None \<Rightarrow> Inl (ClassificationError EmptyResponse)
                | Some text \<Rightarrow>
                    if text = [] then Inl (ClassificationError EmptyResponse)
                    else
                      (case json_loads E text of
                         Inl e \<Rightarrow> Inl e
                       | Inr payload \<Rightarrow>
                           (case getitem payload X_KEY of
                              Inl e \<Rightarrow> Inl e
                            | Inr x \<Rightarrow>
                                (case getitem payload Y_KEY of
                                   Inl e \<Rightarrow> Inl e
                                 | Inr y \<Rightarrow> Inr (x, y)))))))"

definition response_error :: "env \<Rightarrow> outcome \<Rightarrow> exn option" where
  "response_error E out = (case response_result E out of Inl e \<Rightarrow> Some e | Inr v \<Rightarrow> None)"

text \<open>
  The cache after \<^verbatim>\<open>_parse_response_and_update_cache\<close> has stored a pair: the entry is
  written, and the oldest entry removed when the length exceeds the capacity.
\<close>

definition stored :: "string \<Rightarrow> json \<times> json \<Rightarrow> classifier \<Rightarrow> cache" where
  "stored k v s =
     (let c = od_setitem k v (cache s)
      in if int (length c) > cache_size s then tl c else c)"

text \<open>
  The entry under a key is not evicted during a run of calls: it is in the cache before
  each call of the run and after the last one.
\<close>

fun stays_cached :: "env \<Rightarrow> string \<Rightarrow> string list \<Rightarrow> classifier \<Rightarrow> bool" where
  "stays_cached E k [] s = od_contains k (cache s)"
| "stays_cached E k (d # ds) s =
     (od_contains k (cache s) \<and> stays_cached E k ds (snd (classify E d s)))"

text \<open>The classifier the constructor builds from its default arguments.\<close>

definition default_classifier :: classifier where
  "default_classifier = new_classifier 2 50"

text \<open>
  The contract of the envelope, from the docstring of \<^verbatim>\<open>classify_problem_statement\<close>:
  \<^verbatim>\<open>success\<close> is a bool; with \<^verbatim>\<open>True\<close> there is a \<^verbatim>\<open>data\<close> dict with both
  categories, with \<^verbatim>\<open>False\<close> an \<^verbatim>\<open>error\<close> string.
\<close>

definition envelope_ok :: "envelope \<Rightarrow> bool" where
  "envelope_ok env =
     (case map_of env ''success'' of
        Some (PBool b) \<Rightarrow>
          if b
          then (case map_of env ''data'' of
                  Some (PDict data) \<Rightarrow> map_of data X_KEY \<noteq> None \<and> map_of data Y_KEY \<noteq> None
                | _ \<Rightarrow> False)
          else (case map_of env ''error'' of Some (PStr msg) \<Rightarrow> True | _ \<Rightarrow> False)
      | _ \<Rightarrow> False)"

text \<open>The log before any request.\<close>

definition new_io :: io where
  "new_io = \<lparr>calls = [], sleeps = []\<rparr>"

section \<open>Test doubles\<close>

text \<open>
  A stand-in for \<^verbatim>\<open>json.loads\<close> that knows two texts; a stand-in for the digest that
  gives six texts the digest MD5 gives them, and any other text its reverse; and an
  environment around a given model.
\<close>

definition stub_md5 :: "string \<Rightarrow> string" where
  "stub_md5 text =
     (if text = ''a smart water bottle that tracks hydration''
      then ''68cc7a90f71b8b072d03425ea3ada5ad''
      else if text = ''a smart water bottle'' then ''0fb0dffd44bf7132fd00b2eb2434f5f2''
      else if text = ''a robot'' then ''17fac858a9d83ac14ad2dc09bb0c7d4b''
      else if text = ''alpha'' then ''2c1743a391305fbf367df8e4f069f9f9''
      else if text = ''beta'' then ''987bcab01b929eb2c07877b224215c92''
      else if text = ''gamma'' then ''05b048d7242cb7b8b57cfa3b1d65ecea''
      else rev text)"

definition stub_loads :: "string \<Rightarrow> exn + json" where
  \<open>stub_loads text =
     (if text = ''{"X_Axis_Rubric_Category": "Has some Grammar", "Y_Axis_Rubric_Category": "Prototype Status"}''
      then Inr (JObj [(X_KEY, JStr ''Has some Grammar''), (Y_KEY, JStr ''Prototype Status'')])
      else if text = ''{"X_Axis_Rubric_Category": "Pretty Good", "Y_Axis_Rubric_Category": "Some Stuff"}''
      then Inr (JObj [(X_KEY, JStr ''Pretty Good''), (Y_KEY, JStr ''Some Stuff'')])
      else Inl (JSONDecodeError ''Expecting value: line 1 column 1 (char 0)''))\<close>

definition stub_env :: "(string list \<Rightarrow> outcome) \<Rightarrow> env" where
  "stub_env model =
     \<lparr>GROQ_API_KEY = Some ''gsk_0123456789abcdef'',
      md5_hexdigest = stub_md5,
      json_loads = stub_loads,
      async_create = model,
      sync_create = model,
      PROMPT_head = ''Classify: '',
      PROMPT_tail = '' Return JSON.''\<rparr>"

definition good_model :: "string list \<Rightarrow> outcome" where
  \<open>good_model log =
     Returns [Some ''{"X_Axis_Rubric_Category": "Has some Grammar", "Y_Axis_Rubric_Category": "Prototype Status"}'']\<close>

definition odd_model :: "string list \<Rightarrow> outcome" where
  \<open>odd_model log =
     Returns [Some ''{"X_Axis_Rubric_Category": "Pretty Good", "Y_Axis_Rubric_Category": "Some Stuff"}'']\<close>

text \<open>A model that changes its answer after the first request.\<close>

definition fickle_model :: "string list \<Rightarrow> outcome" where
  "fickle_model log = (if length log \<le> 1 then good_model log else odd_model log)"

definition garbage_model :: "string list \<Rightarrow> outcome" where
  "garbage_model log = Returns [Some ''not json'']"

definition rejected_model :: "string list \<Rightarrow> outcome" where
  "rejected_model log = Raises (ApiException ''Error code: 400 - Bad request'')"

definition denied_model :: "string list \<Rightarrow> outcome" where
  "denied_model log = Raises (ApiException ''Error code: 401 - Authentication failed'')"

section \<open>The ordered dictionary\<close>

lemma map_of_od_setitem_same: "map_of (od_setitem k v c) k = Some v"
  by (induction c) auto

lemma map_of_od_setitem_other: "k' \<noteq> k \<Longrightarrow> map_of (od_setitem k v c) k' = map_of c k'"
  by (induction c) auto

lemma od_setitem_absent: "map_of c k = None \<Longrightarrow> od_setitem k v c = c @ [(k, v)]"
  by (induction c) (auto split: if_splits)

lemma popitem_first_od_setitem: "popitem_first (od_setitem k v c) = Inr (tl (od_setitem k v c))"
  by (cases c) auto

lemma stored_log [simp]:
  "stored k v (s\<lparr>calls := c\<rparr>) = stored k v s"
  "stored k v (s\<lparr>sleeps := sl\<rparr>) = stored k v s"
  by (simp_all add: stored_def)

lemma stored_absent:
  assumes "\<not> od_contains k (cache s)"
  shows "stored k v s =
     (if int (length (cache s)) + 1 > cache_size s then tl (cache s @ [(k, v)])
      else cache s @ [(k, v)])"
proof -
  from assms have "map_of (cache s) k = None"
    by (simp add: od_contains_def map_of_eq_None_iff)
  then have "od_setitem k v (cache s) = cache s @ [(k, v)]" by (rule od_setitem_absent)
  then show ?thesis by (simp add: stored_def)
qed

section \<open>One attempt and the retry loop\<close>

text \<open>
  The store never fails: \<^verbatim>\<open>popitem\<close> runs on a dictionary that has just received an
  entry. So an attempt either raises and leaves the cache alone, or returns the pair of
  the response and stores it.
\<close>

lemma parse_response_and_update_cache_cases:
  "parse_response_and_update_cache E text k s =
     (case json_loads E text of
        Inl e \<Rightarrow> (Inl e, s)
      | Inr payload \<Rightarrow>
          (case getitem payload X_KEY of
             Inl e \<Rightarrow> (Inl e, s)
           | Inr x \<Rightarrow>
               (case getitem payload Y_KEY of
                  Inl e \<Rightarrow> (Inl e, s)
                | Inr y \<Rightarrow> (Inr (x, y), s\<lparr>cache := stored k (x, y) s\<rparr>))))"
  by (simp add: parse_response_and_update_cache_def stored_def Let_def popitem_first_od_setitem
      split: sum.splits)

lemma classify_try_cases:
  "classify_try E p k s =
     (case response_result E (async_create E (p # calls s)) of
        Inl e \<Rightarrow> (Inl e, s\<lparr>calls := p # calls s\<rparr>)
      | Inr v \<Rightarrow> (Inr v, s\<lparr>calls := p # calls s, cache := stored k v s\<rparr>))"
  by (simp add: classify_try_def response_result_def Let_def stored_def
      parse_response_and_update_cache_cases
      split: outcome.splits list.splits option.splits sum.splits)

lemma classify_sync_try_cases:
  "classify_sync_try E p k s =
     (case response_result E (sync_create E (p # calls s)) of
        Inl e \<Rightarrow> (Inl e, s\<lparr>calls := p # calls s\<rparr>)
      | Inr v \<Rightarrow> (Inr v, s\<lparr>calls := p # calls s, cache := stored k v s\<rparr>))"
  by (simp add: classify_sync_try_def response_result_def Let_def stored_def
      parse_response_and_update_cache_cases
      split: outcome.splits list.splits option.splits sum.splits)

text \<open>When every response fails, the loop runs through all its attempts.\<close>

lemma classify_for_all_fail:
  assumes "\<forall>log. response_error E (async_create E log) \<noteq> None"
  shows "classify_for E p k atts lerr s =
     (Inl (ClassificationError (FailedAfter (max_retries s)
        (if atts = [] then lerr
         else response_error E (async_create E (replicate (length atts) p @ calls s))))),
      s\<lparr>calls := replicate (length atts) p @ calls s,
        sleeps := replicate (length atts) 1 @ sleeps s\<rparr>)"
proof (induction atts arbitrary: lerr s)
  case Nil
  show ?case by simp
next
  case (Cons a atts)
  obtain e where e: "response_result E (async_create E (p # calls s)) = Inl e"
    using assms [rule_format, of "p # calls s"]
    by (auto simp: response_error_def split: sum.splits)
  show ?case
    by (simp add: classify_try_cases e Cons.IH replicate_app_Cons_same response_error_def)
qed

text \<open>
  What any run of the loop does: it sends the same prompt between once and as many times
  as there are attempts, keeps the settings, and either fails with the cache untouched or
  returns the pair of one response and stores it.
\<close>

lemma classify_for_effect:
  assumes "classify_for E p k atts lerr s = (r, s')"
  shows "(\<exists>n. n \<le> length atts \<and> (atts \<noteq> [] \<longrightarrow> 0 < n) \<and> calls s' = replicate n p @ calls s)
     \<and> cache_size s' = cache_size s \<and> max_retries s' = max_retries s
     \<and> (case r of
          Inl e \<Rightarrow> cache s' = cache s
                   \<and> (\<exists>l. e = ClassificationError (FailedAfter (max_retries s) l))
        | Inr v \<Rightarrow> cache s' = stored k v s
                   \<and> (\<exists>log. response_result E (async_create E log) = Inr v))"
  using assms
proof (induction atts arbitrary: lerr s)
  case Nil
  then show ?case by auto
next
  case (Cons a atts)
  show ?case
  proof (cases "response_result E (async_create E (p # calls s))")
    case (Inl e)
    let ?s1 = "s\<lparr>calls := p # calls s, sleeps := 1 # sleeps s\<rparr>"
    from Cons.prems Inl have rec: "classify_for E p k atts (Some e) ?s1 = (r, s')"
      by (simp add: classify_try_cases)
    from Cons.IH [OF rec] obtain n where
      n: "n \<le> length atts" "calls s' = replicate n p @ p # calls s"
      and rest: "cache_size s' = cache_size s" "max_retries s' = max_retries s"
        "(case r of Inl e \<Rightarrow> cache s' = cache s
              \<and> (\<exists>l. e = ClassificationError (FailedAfter (max_retries s) l))
          | Inr v \<Rightarrow> cache s' = stored k v s
              \<and> (\<exists>log. response_result E (async_create E log) = Inr v))"
      by (auto split: sum.splits)
    have "Suc n \<le> length (a # atts) \<and> (a # atts \<noteq> [] \<longrightarrow> 0 < Suc n)
        \<and> calls s' = replicate (Suc n) p @ calls s"
      using n by (simp add: replicate_app_Cons_same)
    then show ?thesis using rest by blast
  next
    case (Inr v)
    with Cons.prems have r: "r = Inr v" "s' = s\<lparr>calls := p # calls s, cache := stored k v s\<rparr>"
      by (auto simp: classify_try_cases)
    have "(1::nat) \<le> length (a # atts) \<and> (a # atts \<noteq> [] \<longrightarrow> 0 < (1::nat))
        \<and> calls s' = replicate 1 p @ calls s"
      using r by simp
    moreover have "\<exists>log. response_result E (async_create E log) = Inr v"
      using Inr by blast
    ultimately show ?thesis using r by (simp del: replicate.simps One_nat_def)
  qed
qed

lemma length_attempts: "length [1..m] = nat m"
  by simp

lemma attempts_Nil: "([1..m] = []) = (m \<le> 0)"
  by auto

section \<open>\<^verbatim>\<open>classify\<close> on a cache miss\<close>

lemma classify_miss:
  assumes "strip d \<noteq> []" and "\<not> od_contains (hash E (strip d)) (cache s)"
  shows "classify E d s =
     classify_for E (format_prompt E (take 2000 (strip d))) (hash E (strip d))
       [1..max_retries s] None s"
  using assms by (simp add: classify_def Let_def)

lemma classify_all_fail:
  assumes "strip d \<noteq> []"
    and "\<not> od_contains (hash E (strip d)) (cache s)"
    and "\<forall>log. response_error E (async_create E log) \<noteq> None"
  shows "classify E d s =
     (Inl (ClassificationError (FailedAfter (max_retries s)
        (if max_retries s \<le> 0 then None
         else response_error E (async_create E
                (replicate (nat (max_retries s)) (format_prompt E (take 2000 (strip d)))
                 @ calls s))))),
      s\<lparr>calls := replicate (nat (max_retries s)) (format_prompt E (take 2000 (strip d)))
                 @ calls s,
        sleeps := replicate (nat (max_retries s)) 1 @ sleeps s\<rparr>)"
  by (simp only: classify_miss [OF assms(1,2)] classify_for_all_fail [OF assms(3)]
      length_attempts attempts_Nil)

lemma classify_first_response:
  assumes "strip d \<noteq> []"
    and "\<not> od_contains (hash E (strip d)) (cache s)"
    and "0 < max_retries s"
    and "response_result E (async_create E (format_prompt E (take 2000 (strip d)) # calls s))
           = Inr v"
  shows "classify E d s =
     (Inr v, s\<lparr>calls := format_prompt E (take 2000 (strip d)) # calls s,
               cache := stored (hash E (strip d)) v s\<rparr>)"
proof -
  from assms(3) have "[1..max_retries s] = 1 # [2..max_retries s]"
    by (simp add: upto.simps)
  then show ?thesis
    by (simp add: classify_miss [OF assms(1,2)] classify_try_cases assms(4))
qed

section \<open>Vocabulary closure\<close>

text \<open>
  C1, as the code has it. The code holds no test of a value against the vocabularies. On a
  cache miss, a call that returns gives the pair of values that one response of the model
  holds under the two keys, whatever they are, and writes that pair to the cache (where
  the capacity decides as for any entry); a call that fails raises the
  \<^verbatim>\<open>ClassificationError\<close> of the exhausted retries and leaves the cache as it was. When
  the first response parses to an object with both keys, its pair is returned and
  written to the cache after that single request.
\<close>

theorem classify_returns_response_pair:
  assumes "strip d \<noteq> []"
    and "\<not> od_contains (hash E (strip d)) (cache s)"
    and "classify E d s = (r, s')"
  shows "(case r of
            Inr v \<Rightarrow> (\<exists>log. response_result E (async_create E log) = Inr v)
                       \<and> cache s' = stored (hash E (strip d)) v s
          | Inl e \<Rightarrow> (\<exists>l. e = ClassificationError (FailedAfter (max_retries s) l))
                       \<and> cache s' = cache s)
      \<and> (\<forall>v. 0 < max_retries s
             \<and> response_result E
                  (async_create E (format_prompt E (take 2000 (strip d)) # calls s)) = Inr v
           \<longrightarrow> r = Inr v
               \<and> s' = s\<lparr>calls := format_prompt E (take 2000 (strip d)) # calls s,
                         cache := stored (hash E (strip d)) v s\<rparr>)"
proof -
  have loop: "classify_for E (format_prompt E (take 2000 (strip d))) (hash E (strip d))
       [1..max_retries s] None s = (r, s')"
    using assms(3) by (simp add: classify_miss [OF assms(1,2)])
  have first: "case r of
            Inr v \<Rightarrow> (\<exists>log. response_result E (async_create E log) = Inr v)
                       \<and> cache s' = stored (hash E (strip d)) v s
          | Inl e \<Rightarrow> (\<exists>l. e = ClassificationError (FailedAfter (max_retries s) l))
                       \<and> cache s' = cache s"
    using classify_for_effect [OF loop] by (auto split: sum.splits)
  have second: "r = Inr v
         \<and> s' = s\<lparr>calls := format_prompt E (take 2000 (strip d)) # calls s,
                   cache := stored (hash E (strip d)) v s\<rparr>"
    if "0 < max_retries s"
      and "response_result E
             (async_create E (format_prompt E (take 2000 (strip d)) # calls s)) = Inr v"
    for v
    using classify_first_response [OF assms(1,2) that] assms(3) by simp
  show ?thesis using first second by blast
qed

theorem classify_returns_response_pair_witness:
  "classify (stub_env good_model) ''a smart water bottle'' (new_classifier 2 50)
    = (Inr (JStr ''Has some Grammar'', JStr ''Prototype Status''),
       \<lparr>calls = [''Classify: a smart water bottle Return JSON.''],
        sleeps = [],
        cache = [(''0fb0dffd44bf7132'', JStr ''Has some Grammar'', JStr ''Prototype Status'')],
        cache_size = 50, max_retries = 2\<rparr>)"
proof -
  let ?E = "stub_env good_model"
  let ?d = "''a smart water bottle''"
  let ?s = "new_classifier 2 50"
  let ?v = "(JStr ''Has some Grammar'', JStr ''Prototype Status'')"
  let ?s' = "?s\<lparr>calls := format_prompt ?E (take 2000 (strip ?d)) # calls ?s,
                 cache := stored (hash ?E (strip ?d)) ?v ?s\<rparr>"
  have h1: "strip ?d \<noteq> []" by code_simp
  have h2: "\<not> od_contains (hash ?E (strip ?d)) (cache ?s)" by code_simp
  have h3: "classify ?E ?d ?s = (fst (classify ?E ?d ?s), snd (classify ?E ?d ?s))" by simp
  have h4: "0 < max_retries ?s" by code_simp
  have h5: "response_result ?E
      (async_create ?E (format_prompt ?E (take 2000 (strip ?d)) # calls ?s)) = Inr ?v"
    by code_simp
  from classify_returns_response_pair [OF h1 h2 h3] h4 h5
  have "fst (classify ?E ?d ?s) = Inr ?v \<and> snd (classify ?E ?d ?s) = ?s'"
    by blast
  then have "classify ?E ?d ?s = (Inr ?v, ?s')"
    by (simp add: prod_eq_iff)
  also have "(Inr ?v :: exn + json \<times> json, ?s') =
      (Inr (JStr ''Has some Grammar'', JStr ''Prototype Status''),
       \<lparr>calls = [''Classify: a smart water bottle Return JSON.''],
        sleeps = [],
        cache = [(''0fb0dffd44bf7132'', JStr ''Has some Grammar'', JStr ''Prototype Status'')],
        cache_size = 50, max_retries = 2\<rparr>)"
    by code_simp
  finally show ?thesis .
qed

text \<open>
  The claim as stated fails: a response with the categories \<^verbatim>\<open>"Pretty Good"\<close> and
  \<^verbatim>\<open>"Some Stuff"\<close>, which are in neither vocabulary, is returned by the first attempt and
  stored in the cache.
\<close>

theorem classify_out_of_vocabulary_counterexample:
  "classify (stub_env odd_model) ''a smart water bottle that tracks hydration''
      (new_classifier 2 50)
    = (Inr (JStr ''Pretty Good'', JStr ''Some Stuff''),
       \<lparr>calls = [''Classify: a smart water bottle that tracks hydration Return JSON.''],
        sleeps = [],
        cache = [(''68cc7a90f71b8b07'', JStr ''Pretty Good'', JStr ''Some Stuff'')],
        cache_size = 50, max_retries = 2\<rparr>)
   \<and> ''Pretty Good'' \<notin> set x_vocabulary
   \<and> ''Some Stuff'' \<notin> set y_vocabulary"
  by code_simp

section \<open>Retry exhaustion\<close>

text \<open>
  C3. When the request of every attempt fails (the call raises, the content is missing or
  empty, the text does not parse, or a key is missing), \<^verbatim>\<open>classify\<close> sends exactly
  \<open>max_retries\<close> requests (none when \<open>max_retries\<close> is not positive), sleeps one second
  after each, leaves the cache as it was and raises the \<^verbatim>\<open>ClassificationError\<close> whose
  message names \<open>max_retries\<close> and the exception of the last attempt.
\<close>

theorem classify_retry_exhaustion:
  assumes "strip d \<noteq> []"
    and "\<not> od_contains (hash E (strip d)) (cache s)"
    and "\<forall>log. response_error E (async_create E log) \<noteq> None"
  shows "classify E d s =
     (Inl (ClassificationError (FailedAfter (max_retries s)
        (if max_retries s \<le> 0 then None
         else response_error E (async_create E
                (replicate (nat (max_retries s)) (format_prompt E (take 2000 (strip d)))
                 @ calls s))))),
      s\<lparr>calls := replicate (nat (max_retries s)) (format_prompt E (take 2000 (strip d)))
                 @ calls s,
        sleeps := replicate (nat (max_retries s)) 1 @ sleeps s\<rparr>)"
  by (rule classify_all_fail [OF assms])

theorem classify_retry_exhaustion_witness:
  "classify (stub_env garbage_model) ''  a robot '' (new_classifier 2 50)
    = (Inl (ClassificationError (FailedAfter 2
              (Some (JSONDecodeError ''Expecting value: line 1 column 1 (char 0)'')))),
       \<lparr>calls = [''Classify: a robot Return JSON.'', ''Classify: a robot Return JSON.''],
        sleeps = [1, 1], cache = [], cache_size = 50, max_retries = 2\<rparr>)"
proof -
  let ?E = "stub_env garbage_model"
  let ?d = "''  a robot ''"
  let ?s = "new_classifier 2 50"
  let ?p = "format_prompt ?E (take 2000 (strip ?d))"
  have h1: "strip ?d \<noteq> []" by code_simp
  have h2: "\<not> od_contains (hash ?E (strip ?d)) (cache ?s)" by code_simp
  have h3: "\<forall>log. response_error ?E (async_create ?E log) \<noteq> None"
    by (simp add: response_error_def response_result_def stub_env_def garbage_model_def
        stub_loads_def)
  have "classify ?E ?d ?s =
     (Inl (ClassificationError (FailedAfter (max_retries ?s)
        (if max_retries ?s \<le> 0 then None
         else response_error ?E (async_create ?E
                (replicate (nat (max_retries ?s)) ?p @ calls ?s))))),
      ?s\<lparr>calls := replicate (nat (max_retries ?s)) ?p @ calls ?s,
        sleeps := replicate (nat (max_retries ?s)) 1 @ sleeps ?s\<rparr>)"
    by (rule classify_retry_exhaustion [OF h1 h2 h3])
  also have "\<dots> =
      (Inl (ClassificationError (FailedAfter 2
              (Some (JSONDecodeError ''Expecting value: line 1 column 1 (char 0)'')))),
       \<lparr>calls = [''Classify: a robot Return JSON.'', ''Classify: a robot Return JSON.''],
        sleeps = [1, 1], cache = [], cache_size = 50, max_retries = 2\<rparr>)"
    by code_simp
  finally show ?thesis .
qed

section \<open>Input rejection\<close>

lemma strip_all_space:
  assumes "\<forall>c \<in> set d. isspace c"
  shows "strip d = []"
proof -
  have "lstrip d = []"
    unfolding lstrip_def using assms by (induction d) auto
  then show ?thesis by (simp add: strip_def rstrip_def)
qed

lemma strip_unchanged:
  assumes "d \<noteq> []" and "\<not> isspace (hd d)" and "\<not> isspace (last d)"
  shows "strip d = d"
proof -
  from assms(1,2) have l: "lstrip d = d"
    by (cases d) (simp_all add: lstrip_def)
  from assms(1,3) have "dropWhile isspace (rev d) = rev d"
    by (cases "rev d") (simp_all add: last_rev [symmetric] del: last_rev)
  then show ?thesis by (simp add: strip_def rstrip_def l)
qed

text \<open>
  C4. A description that is empty or made of whitespace only makes \<^verbatim>\<open>classify\<close> raise
  \<^verbatim>\<open>ClassificationError("Description cannot be empty.")\<close> at once: the classifier is left as
  it was, so no request was sent, no delay slept and the cache is unchanged.
\<close>

theorem classify_rejects_blank:
  assumes "\<forall>c \<in> set d. isspace c"
  shows "classify E d s = (Inl (ClassificationError DescriptionEmpty), s)"
  using strip_all_space [OF assms] by (simp add: classify_def)

theorem classify_rejects_blank_witness:
  "classify (stub_env good_model) ''   '' (new_classifier 2 50)
       = (Inl (ClassificationError DescriptionEmpty), new_classifier 2 50)
   \<and> classify (stub_env good_model) '''' (new_classifier 2 50)
       = (Inl (ClassificationError DescriptionEmpty), new_classifier 2 50)"
proof -
  have a: "\<forall>c \<in> set ''   ''. isspace c" by (simp add: isspace_def)
  have b: "\<forall>c \<in> set ''''. isspace c" by simp
  show ?thesis
    using classify_rejects_blank [OF a, of "stub_env good_model" "new_classifier 2 50"]
      classify_rejects_blank [OF b, of "stub_env good_model" "new_classifier 2 50"]
    by simp
qed


section \<open>The envelope of \<^verbatim>\<open>classify_problem_statement\<close>\<close>

lemma envelope_ok_failure: "envelope_ok (failure msg)"
  by (simp add: envelope_ok_def failure_def)

lemma envelope_ok_parse_failure: "envelope_ok (parse_failure msg text)"
  by (simp add: envelope_ok_def parse_failure_def)

lemma parse_except_is_failure: "\<exists>msg. parse_except e text = parse_failure msg text"
  by (cases e) auto

lemma parse_classification_response_cases:
  "(\<exists>msg. parse_classification_response E text = parse_failure msg text)
   \<or> (\<exists>x y. parse_classification_response E text
          = [(''success'', PBool True), (''data'', PDict [(X_KEY, x), (Y_KEY, y)])])"
  using parse_except_is_failure
  by (auto simp: parse_classification_response_def split: sum.splits)

lemma envelope_ok_parse: "envelope_ok (parse_classification_response E text)"
  using parse_classification_response_cases [of E "text"]
  by (auto simp: envelope_ok_parse_failure) (simp add: envelope_ok_def X_KEY_def Y_KEY_def)

lemma parse_keeps_raw_response:
  "map_of (parse_classification_response E text) ''success'' = Some (PBool False)
   \<Longrightarrow> map_of (parse_classification_response E text) ''raw_response'' = Some (PStr text)"
  using parse_classification_response_cases [of E "text"]
  by (auto simp: parse_failure_def)

lemma ps_for_envelope:
  assumes "atts \<noteq> []" and "\<not> last atts < ps_max_retries - 1"
  shows "\<exists>env t'. ps_for E p atts t = (Some env, t')
          \<and> ((\<exists>msg. env = failure msg) \<or> (\<exists>text. env = parse_classification_response E text))"
  using assms
proof (induction atts arbitrary: t)
  case Nil
  then show ?case by simp
next
  case (Cons a atts)
  show ?case
  proof (cases "atts = []")
    case True
    with Cons.prems have "\<not> a < ps_max_retries - 1" by simp
    then show ?thesis
      by (auto simp: Let_def True split: outcome.splits option.splits)
  next
    case False
    with Cons.prems have "\<not> last atts < ps_max_retries - 1" by simp
    from Cons.IH [OF False this] show ?thesis
      by (auto simp: Let_def split: outcome.splits option.splits)
  qed
qed

lemma ps_attempts: "[0..<ps_max_retries] = [0, 1, 2]"
  by (simp add: ps_max_retries_def upt_rec)

text \<open>
  C8. \<^verbatim>\<open>classify_problem_statement\<close> returns an envelope for every input, key and model:
  its loop never runs off its end, and every exception of the request or of the parsing
  is turned into an envelope. The envelope has a bool under \<^verbatim>\<open>success\<close>; with \<^verbatim>\<open>True\<close>
  the \<^verbatim>\<open>data\<close> dict holds both categories, with \<^verbatim>\<open>False\<close> there is an \<^verbatim>\<open>error\<close>
  string. It is either a plain failure or the result of parsing a text of the model, and
  a failed parse keeps that text under \<^verbatim>\<open>raw_response\<close>. (The constructor of the client,
  called with a key that is present, is taken not to raise.)
\<close>

theorem classify_problem_statement_envelope:
  "\<exists>env t'. classify_problem_statement E idea ps t = (Some env, t')
     \<and> envelope_ok env
     \<and> ((\<exists>msg. env = failure msg)
        \<or> (\<exists>txt. env = parse_classification_response E txt
              \<and> (map_of env ''success'' = Some (PBool False)
                   \<longrightarrow> map_of env ''raw_response'' = Some (PStr txt))))"
proof -
  have loop: "\<exists>env t'. ps_for E p [0..<ps_max_retries] t = (Some env, t')
          \<and> ((\<exists>msg. env = failure msg) \<or> (\<exists>txt. env = parse_classification_response E txt))"
    for p
    by (rule ps_for_envelope) (simp_all add: ps_attempts, simp add: ps_max_retries_def)
  have "\<exists>env t'. classify_problem_statement E idea ps t = (Some env, t')
          \<and> ((\<exists>msg. env = failure msg) \<or> (\<exists>txt. env = parse_classification_response E txt))"
    using loop [of "user_prompt idea ps"]
    by (auto simp: classify_problem_statement_def split: option.splits)
  then obtain env t' where
    run: "classify_problem_statement E idea ps t = (Some env, t')"
    and origin: "(\<exists>msg. env = failure msg) \<or> (\<exists>txt. env = parse_classification_response E txt)"
    by blast
  from origin have "envelope_ok env"
    by (auto simp: envelope_ok_failure envelope_ok_parse)
  moreover from origin have "(\<exists>msg. env = failure msg)
        \<or> (\<exists>txt. env = parse_classification_response E txt
              \<and> (map_of env ''success'' = Some (PBool False)
                   \<longrightarrow> map_of env ''raw_response'' = Some (PStr txt)))"
    using parse_keeps_raw_response by blast
  ultimately show ?thesis using run by blast
qed

theorem classify_problem_statement_envelope_witness:
  "\<exists>env t'. classify_problem_statement (stub_env garbage_model) ''solar lamps''
        ''villages lack light'' new_io = (Some env, t')
     \<and> envelope_ok env
     \<and> map_of env ''success'' = Some (PBool False)
     \<and> map_of env ''raw_response'' = Some (PStr ''not json'')"
proof -
  from classify_problem_statement_envelope
    [of "stub_env garbage_model" "''solar lamps''" "''villages lack light''" new_io]
  obtain env t' where
    run: "classify_problem_statement (stub_env garbage_model) ''solar lamps''
        ''villages lack light'' new_io = (Some env, t')"
    and ok: "envelope_ok env"
    by blast
  have "classify_problem_statement (stub_env garbage_model) ''solar lamps''
        ''villages lack light'' new_io
      = (Some [(''success'', PBool False),
               (''error'', PStr ''Failed to parse JSON from response: Expecting value: line 1 column 1 (char 0)''),
               (''raw_response'', PStr ''not json'')],
         \<lparr>calls = [user_prompt ''solar lamps'' ''villages lack light''], sleeps = []\<rparr>)"
    by code_simp
  with run have "env = [(''success'', PBool False),
               (''error'', PStr ''Failed to parse JSON from response: Expecting value: line 1 column 1 (char 0)''),
               (''raw_response'', PStr ''not json'')]"
    by simp
  then have "map_of env ''success'' = Some (PBool False)
     \<and> map_of env ''raw_response'' = Some (PStr ''not json'')"
    by simp
  with run ok show ?thesis by blast
qed

section \<open>Permanent failures\<close>

lemma ps_auth:
  assumes "GROQ_API_KEY E = Some key" "key \<noteq> []" "10 \<le> length (strip key)"
    and "sync_create E (user_prompt idea ps # calls t) = Raises e"
    and "str_in ''authentication'' (lower (str_exn e))"
  shows "classify_problem_statement E idea ps t
     = (Some (failure ''Invalid API key. Please check your OPENAI_API_KEY.''),
        t\<lparr>calls := user_prompt idea ps # calls t\<rparr>)"
  using assms by (simp add: classify_problem_statement_def ps_attempts Let_def)

lemma ps_for_retry:
  assumes "sync_create E (p # calls t) = Raises e"
    and "\<not> str_in ''authentication'' (lower (str_exn e))"
    and "\<not> str_in ''rate_limit'' (lower (str_exn e))"
    and "a < ps_max_retries - 1"
  shows "ps_for E p (a # rest) t
     = ps_for E p rest (t\<lparr>calls := p # calls t, sleeps := 2 ^ a # sleeps t\<rparr>)"
  using assms by (simp add: Let_def)

lemma ps_other:
  assumes "GROQ_API_KEY E = Some key" "key \<noteq> []" "10 \<le> length (strip key)"
    and "sync_create E (user_prompt idea ps # calls t) = Raises e"
    and "\<not> str_in ''authentication'' (lower (str_exn e))"
    and "\<not> str_in ''rate_limit'' (lower (str_exn e))"
  shows "classify_problem_statement E idea ps t
     = ps_for E (user_prompt idea ps) [1, 2]
         (t\<lparr>calls := user_prompt idea ps # calls t, sleeps := 1 # sleeps t\<rparr>)"
proof -
  have "classify_problem_statement E idea ps t = ps_for E (user_prompt idea ps) [0, 1, 2] t"
    using assms(1-3) by (simp add: classify_problem_statement_def ps_attempts)
  also have "\<dots> = ps_for E (user_prompt idea ps) [1, 2]
         (t\<lparr>calls := user_prompt idea ps # calls t, sleeps := 2 ^ 0 # sleeps t\<rparr>)"
    by (rule ps_for_retry [OF assms(4-6)]) (simp add: ps_max_retries_def)
  finally show ?thesis by simp
qed

lemma response_error_Raises: "response_error E (Raises e) = Some e"
  by (simp add: response_error_def response_result_def)

text \<open>
  C2, as the code has it. \<^verbatim>\<open>classify_problem_statement\<close> surfaces at once an exception
  whose message contains \<^verbatim>\<open>authentication\<close> in any case: one request, no delay, a failure
  envelope. Any other exception but a rate limit, a malformed request included, is slept
  on and retried. \<^verbatim>\<open>classify\<close> has no class of permanent failures at all: when every
  request raises, whatever the exception, it spends the whole retry budget and sleeps a
  second after each attempt.
\<close>

theorem permanent_failure_handling:
  "(GROQ_API_KEY E1 = Some key1 \<and> key1 \<noteq> [] \<and> 10 \<le> length (strip key1)
      \<and> sync_create E1 (user_prompt idea1 ps1 # calls t1) = Raises e1
      \<and> str_in ''authentication'' (lower (str_exn e1))
    \<longrightarrow> classify_problem_statement E1 idea1 ps1 t1
          = (Some (failure ''Invalid API key. Please check your OPENAI_API_KEY.''),
             t1\<lparr>calls := user_prompt idea1 ps1 # calls t1\<rparr>))
   \<and> (GROQ_API_KEY E2 = Some key2 \<and> key2 \<noteq> [] \<and> 10 \<le> length (strip key2)
      \<and> sync_create E2 (user_prompt idea2 ps2 # calls t2) = Raises e2
      \<and> \<not> str_in ''authentication'' (lower (str_exn e2))
      \<and> \<not> str_in ''rate_limit'' (lower (str_exn e2))
    \<longrightarrow> classify_problem_statement E2 idea2 ps2 t2
          = ps_for E2 (user_prompt idea2 ps2) [1, 2]
              (t2\<lparr>calls := user_prompt idea2 ps2 # calls t2, sleeps := 1 # sleeps t2\<rparr>))
   \<and> (strip d \<noteq> [] \<and> \<not> od_contains (hash E (strip d)) (cache s)
      \<and> (\<forall>log. \<exists>e. async_create E log = Raises e)
    \<longrightarrow> classify E d s =
       (Inl (ClassificationError (FailedAfter (max_retries s)
          (if max_retries s \<le> 0 then None
           else response_error E (async_create E
                  (replicate (nat (max_retries s)) (format_prompt E (take 2000 (strip d)))
                   @ calls s))))),
        s\<lparr>calls := replicate (nat (max_retries s)) (format_prompt E (take 2000 (strip d)))
                   @ calls s,
          sleeps := replicate (nat (max_retries s)) 1 @ sleeps s\<rparr>))"
proof (intro conjI impI)
  assume "GROQ_API_KEY E1 = Some key1 \<and> key1 \<noteq> [] \<and> 10 \<le> length (strip key1)
      \<and> sync_create E1 (user_prompt idea1 ps1 # calls t1) = Raises e1
      \<and> str_in ''authentication'' (lower (str_exn e1))"
  then show "classify_problem_statement E1 idea1 ps1 t1
          = (Some (failure ''Invalid API key. Please check your OPENAI_API_KEY.''),
             t1\<lparr>calls := user_prompt idea1 ps1 # calls t1\<rparr>)"
    using ps_auth by blast
next
  assume "GROQ_API_KEY E2 = Some key2 \<and> key2 \<noteq> [] \<and> 10 \<le> length (strip key2)
      \<and> sync_create E2 (user_prompt idea2 ps2 # calls t2) = Raises e2
      \<and> \<not> str_in ''authentication'' (lower (str_exn e2))
      \<and> \<not> str_in ''rate_limit'' (lower (str_exn e2))"
  then show "classify_problem_statement E2 idea2 ps2 t2
          = ps_for E2 (user_prompt idea2 ps2) [1, 2]
              (t2\<lparr>calls := user_prompt idea2 ps2 # calls t2, sleeps := 1 # sleeps t2\<rparr>)"
    using ps_other by blast
next
  assume a: "strip d \<noteq> [] \<and> \<not> od_contains (hash E (strip d)) (cache s)
      \<and> (\<forall>log. \<exists>e. async_create E log = Raises e)"
  then have "\<forall>log. response_error E (async_create E log) \<noteq> None"
    by (metis response_error_Raises option.distinct(1))
  with a show "classify E d s =
       (Inl (ClassificationError (FailedAfter (max_retries s)
          (if max_retries s \<le> 0 then None
           else response_error E (async_create E
                  (replicate (nat (max_retries s)) (format_prompt E (take 2000 (strip d)))
                   @ calls s))))),
        s\<lparr>calls := replicate (nat (max_retries s)) (format_prompt E (take 2000 (strip d)))
                   @ calls s,
          sleeps := replicate (nat (max_retries s)) 1 @ sleeps s\<rparr>)"
    using classify_all_fail by blast
qed

theorem permanent_failure_handling_witness:
  "classify_problem_statement (stub_env denied_model) ''solar lamps'' ''villages lack light'' new_io
     = (Some [(''success'', PBool False),
              (''error'', PStr ''Invalid API key. Please check your OPENAI_API_KEY.'')],
        \<lparr>calls = [user_prompt ''solar lamps'' ''villages lack light''], sleeps = []\<rparr>)
   \<and> classify_problem_statement (stub_env rejected_model) ''solar lamps'' ''villages lack light''
       new_io
     = (Some [(''success'', PBool False),
              (''error'', PStr ''An unexpected error occurred: Error code: 400 - Bad request'')],
        \<lparr>calls = [user_prompt ''solar lamps'' ''villages lack light'',
                  user_prompt ''solar lamps'' ''villages lack light'',
                  user_prompt ''solar lamps'' ''villages lack light''],
         sleeps = [2, 1]\<rparr>)
   \<and> classify (stub_env denied_model) ''a robot'' (new_classifier 3 50)
     = (Inl (ClassificationError (FailedAfter 3
              (Some (ApiException ''Error code: 401 - Authentication failed'')))),
       \<lparr>calls = [''Classify: a robot Return JSON.'', ''Classify: a robot Return JSON.'',
                 ''Classify: a robot Return JSON.''],
        sleeps = [1, 1, 1], cache = [], cache_size = 50, max_retries = 3\<rparr>)"
proof -
  let ?E1 = "stub_env denied_model"
  let ?E2 = "stub_env rejected_model"
  let ?up = "user_prompt ''solar lamps'' ''villages lack light''"
  let ?e1 = "ApiException ''Error code: 401 - Authentication failed''"
  let ?e2 = "ApiException ''Error code: 400 - Bad request''"
  let ?d = "''a robot''"
  let ?s = "new_classifier 3 50"
  have a: "GROQ_API_KEY ?E1 = Some ''gsk_0123456789abcdef'' \<and> ''gsk_0123456789abcdef'' \<noteq> []
      \<and> 10 \<le> length (strip ''gsk_0123456789abcdef'')
      \<and> sync_create ?E1 (?up # calls new_io) = Raises ?e1
      \<and> str_in ''authentication'' (lower (str_exn ?e1))"
    by code_simp
  have b: "GROQ_API_KEY ?E2 = Some ''gsk_0123456789abcdef'' \<and> ''gsk_0123456789abcdef'' \<noteq> []
      \<and> 10 \<le> length (strip ''gsk_0123456789abcdef'')
      \<and> sync_create ?E2 (?up # calls new_io) = Raises ?e2
      \<and> \<not> str_in ''authentication'' (lower (str_exn ?e2))
      \<and> \<not> str_in ''rate_limit'' (lower (str_exn ?e2))"
    by code_simp
  have c: "strip ?d \<noteq> [] \<and> \<not> od_contains (hash ?E1 (strip ?d)) (cache ?s)
      \<and> (\<forall>log. \<exists>e. async_create ?E1 log = Raises e)"
    by (simp add: stub_env_def denied_model_def) code_simp
  note inst = permanent_failure_handling
    [of "?E1" "''gsk_0123456789abcdef''" "''solar lamps''" "''villages lack light''" new_io "?e1"
        "?E2" "''gsk_0123456789abcdef''" "''solar lamps''" "''villages lack light''" new_io "?e2"
        "?d" "?E1" "?s"]
  have run1: "classify_problem_statement ?E1 ''solar lamps'' ''villages lack light'' new_io
          = (Some (failure ''Invalid API key. Please check your OPENAI_API_KEY.''),
             new_io\<lparr>calls := ?up # calls new_io\<rparr>)"
    using inst a by blast
  have run2: "classify_problem_statement ?E2 ''solar lamps'' ''villages lack light'' new_io
          = ps_for ?E2 ?up [1, 2] (new_io\<lparr>calls := ?up # calls new_io, sleeps := 1 # sleeps new_io\<rparr>)"
    using inst b by blast
  have run3: "classify ?E1 ?d ?s =
       (Inl (ClassificationError (FailedAfter (max_retries ?s)
          (if max_retries ?s \<le> 0 then None
           else response_error ?E1 (async_create ?E1
                  (replicate (nat (max_retries ?s)) (format_prompt ?E1 (take 2000 (strip ?d)))
                   @ calls ?s))))),
        ?s\<lparr>calls := replicate (nat (max_retries ?s)) (format_prompt ?E1 (take 2000 (strip ?d)))
                   @ calls ?s,
          sleeps := replicate (nat (max_retries ?s)) 1 @ sleeps ?s\<rparr>)"
    using inst c by blast
  have ev1: "(Some (failure ''Invalid API key. Please check your OPENAI_API_KEY.''),
             new_io\<lparr>calls := ?up # calls new_io\<rparr>)
     = (Some [(''success'', PBool False),
              (''error'', PStr ''Invalid API key. Please check your OPENAI_API_KEY.'')],
        \<lparr>calls = [?up], sleeps = []\<rparr>)"
    by (simp add: failure_def new_io_def)
  have ev2: "ps_for ?E2 ?up [1, 2] (new_io\<lparr>calls := ?up # calls new_io, sleeps := 1 # sleeps new_io\<rparr>)
     = (Some [(''success'', PBool False),
              (''error'', PStr ''An unexpected error occurred: Error code: 400 - Bad request'')],
        \<lparr>calls = [?up, ?up, ?up], sleeps = [2, 1]\<rparr>)"
    by code_simp
  have ev3: "(Inl (ClassificationError (FailedAfter (max_retries ?s)
          (if max_retries ?s \<le> 0 then None
           else response_error ?E1 (async_create ?E1
                  (replicate (nat (max_retries ?s)) (format_prompt ?E1 (take 2000 (strip ?d)))
                   @ calls ?s))))),
        ?s\<lparr>calls := replicate (nat (max_retries ?s)) (format_prompt ?E1 (take 2000 (strip ?d)))
                   @ calls ?s,
          sleeps := replicate (nat (max_retries ?s)) 1 @ sleeps ?s\<rparr>)
    = (Inl (ClassificationError (FailedAfter 3
              (Some (ApiException ''Error code: 401 - Authentication failed'')))) :: exn + json \<times> json,
       \<lparr>calls = [''Classify: a robot Return JSON.'', ''Classify: a robot Return JSON.'',
                 ''Classify: a robot Return JSON.''],
        sleeps = [1, 1, 1], cache = [], cache_size = 50, max_retries = 3\<rparr>)"
    by code_simp
  show ?thesis
    by (simp only: run1 ev1 run2 ev2 run3 ev3)
qed

text \<open>
  The claim as stated fails for \<^verbatim>\<open>classify\<close>: with two retries, an authentication failure
  of the model costs two requests and two delays before it surfaces.
\<close>

theorem classify_retries_authentication_failure_counterexample:
  "classify (stub_env denied_model) ''a robot'' (new_classifier 2 50)
    = (Inl (ClassificationError (FailedAfter 2
              (Some (ApiException ''Error code: 401 - Authentication failed'')))),
       \<lparr>calls = [''Classify: a robot Return JSON.'', ''Classify: a robot Return JSON.''],
        sleeps = [1, 1], cache = [], cache_size = 50, max_retries = 2\<rparr>)"
  by code_simp


section \<open>Cache hits\<close>

lemma map_of_moved_same: "map_of (filter (\<lambda>q. fst q \<noteq> k) c @ [(k, v)]) k = Some v"
  by (induction c) auto

lemma map_of_moved_other:
  "k' \<noteq> k \<Longrightarrow> map_of (filter (\<lambda>q. fst q \<noteq> k) c @ [(k, v)]) k' = map_of c k'"
  by (induction c) auto

lemma distinct_moved:
  "distinct (map fst c) \<Longrightarrow> distinct (map fst (filter (\<lambda>q. fst q \<noteq> k) c @ [(k, v)]))"
  by (induction c) auto

lemma od_contains_map_of: "od_contains k c = (\<exists>v. map_of c k = Some v)"
  by (induction c) (auto simp: od_contains_def)

text \<open>A hit.\<close>

lemma classify_hit:
  assumes "strip d \<noteq> []" and "map_of (cache s) (hash E (strip d)) = Some v"
  shows "classify E d s =
     (Inr v, s\<lparr>cache := filter (\<lambda>q. fst q \<noteq> hash E (strip d)) (cache s)
                           @ [(hash E (strip d), v)]\<rparr>)"
proof -
  from assms(2) have "od_contains (hash E (strip d)) (cache s)"
    by (auto simp: od_contains_map_of)
  then show ?thesis
    using assms
    by (simp add: classify_def Let_def move_to_end_def map_of_moved_same del: map_of_append)
qed

text \<open>Every call: success needs a non-blank text; the cache is changed by a move or a store.\<close>

lemma classify_cases:
  assumes "classify E d s = (r, s')"
  shows "(strip d = [] \<and> r = Inl (ClassificationError DescriptionEmpty) \<and> s' = s)
     \<or> (strip d \<noteq> [] \<and> (\<exists>v. map_of (cache s) (hash E (strip d)) = Some v \<and> r = Inr v
           \<and> s' = s\<lparr>cache := filter (\<lambda>q. fst q \<noteq> hash E (strip d)) (cache s)
                                 @ [(hash E (strip d), v)]\<rparr>))
     \<or> (strip d \<noteq> [] \<and> \<not> od_contains (hash E (strip d)) (cache s)
           \<and> (\<exists>n. n \<le> nat (max_retries s) \<and> (0 < max_retries s \<longrightarrow> 0 < n)
                 \<and> calls s' = replicate n (format_prompt E (take 2000 (strip d))) @ calls s)
           \<and> cache_size s' = cache_size s \<and> max_retries s' = max_retries s
           \<and> (case r of
                 Inl e \<Rightarrow> cache s' = cache s
               | Inr v \<Rightarrow> cache s' = stored (hash E (strip d)) v s))"
proof (cases "strip d = []")
  case True
  with assms show ?thesis by (auto simp: classify_def)
next
  case False
  show ?thesis
  proof (cases "od_contains (hash E (strip d)) (cache s)")
    case True
    then obtain v where v: "map_of (cache s) (hash E (strip d)) = Some v"
      by (auto simp: od_contains_map_of)
    from classify_hit [OF False v] assms v False show ?thesis by auto
  next
    case miss: False
    have loop: "classify_for E (format_prompt E (take 2000 (strip d))) (hash E (strip d))
       [1..max_retries s] None s = (r, s')"
      using assms by (simp add: classify_miss [OF False miss])
    from classify_for_effect [OF loop] show ?thesis
      using False miss by (auto simp: attempts_Nil split: sum.splits)
  qed
qed

lemma distinct_stored:
  assumes "distinct (map fst (cache s))" and "\<not> od_contains k (cache s)"
  shows "distinct (map fst (stored k v s))"
proof -
  from assms have "distinct (map fst (cache s @ [(k, v)]))"
    by (auto simp: od_contains_def)
  then have "distinct (map fst (tl (cache s @ [(k, v)])))"
    by (simp only: map_tl distinct_tl)
  with \<open>distinct (map fst (cache s @ [(k, v)]))\<close> show ?thesis
    by (cases "cache_size s < int (length (cache s)) + 1")
      (simp_all only: stored_absent [OF assms(2)] if_True if_False)
qed

lemma classify_distinct:
  assumes "distinct (map fst (cache s))" and "classify E d s = (r, s')"
  shows "distinct (map fst (cache s'))"
  using classify_cases [OF assms(2)] assms(1)
  by (auto simp: distinct_moved distinct_stored simp del: map_append split: sum.splits)

lemma stored_keeps_value:
  assumes "distinct (map fst (cache s))" and "map_of (cache s) k = Some p"
    and "\<not> od_contains k' (cache s)" and "od_contains k (stored k' v s)"
  shows "map_of (stored k' v s) k = Some p"
proof -
  from assms(2,3) have ne: "k \<noteq> k'"
    by (force simp: od_contains_def dest!: map_of_SomeD)
  show ?thesis
  proof (cases "cache_size s < int (length (cache s)) + 1")
    case False
    then show ?thesis
      using assms(2) ne by (simp add: stored_absent [OF assms(3)] map_add_def)
  next
    case True
    then have st: "stored k' v s = tl (cache s @ [(k', v)])"
      by (simp add: stored_absent [OF assms(3)])
    from assms(2) obtain q c where c: "cache s = q # c" by (cases "cache s") auto
    with st assms(4) ne have "od_contains k c" by (auto simp: od_contains_def)
    with assms(1) c have "fst q \<noteq> k" by (auto simp: od_contains_def)
    with assms(2) c have "map_of c k = Some p" by (cases q) auto
    then show ?thesis using st c ne by (simp add: map_add_def)
  qed
qed

lemma stored_own_value:
  assumes "\<not> od_contains k (cache s)" and "od_contains k (stored k v s)"
  shows "map_of (stored k v s) k = Some v"
proof -
  from assms(1) have none: "map_of (cache s) k = None"
    by (simp add: od_contains_def map_of_eq_None_iff)
  show ?thesis
  proof (cases "cache_size s < int (length (cache s)) + 1")
    case False
    then show ?thesis
      using none by (simp add: stored_absent [OF assms(1)] map_add_def)
  next
    case True
    then have st: "stored k v s = tl (cache s @ [(k, v)])"
      by (simp add: stored_absent [OF assms(1)])
    show ?thesis
    proof (cases "cache s")
      case Nil
      with st assms(2) show ?thesis by (simp add: od_contains_def)
    next
      case (Cons q c)
      with none have "map_of c k = None" by (cases q) (auto split: if_splits)
      with st Cons show ?thesis by (simp add: map_add_def)
    qed
  qed
qed

lemma stored_positive_capacity:
  assumes "\<not> od_contains k (cache s)" and "0 < cache_size s"
  shows "od_contains k (stored k v s)"
proof (cases "cache s")
  case Nil
  with assms(2) show ?thesis
    by (simp add: stored_absent [OF assms(1)] od_contains_def)
next
  case (Cons q c)
  then show ?thesis
    by (simp add: stored_absent [OF assms(1)] od_contains_def)
qed

lemma classify_success_cached:
  assumes "classify E d s = (Inr p, s')" and "od_contains (hash E (strip d)) (cache s')"
  shows "strip d \<noteq> [] \<and> map_of (cache s') (hash E (strip d)) = Some p"
  using classify_cases [OF assms(1)] assms(2)
  by (auto simp: stored_own_value map_of_moved_same simp del: map_of_append)

lemma classify_keeps_value:
  assumes "distinct (map fst (cache s))" and "map_of (cache s) k = Some p"
    and "classify E d s = (r, s')" and "od_contains k (cache s')"
  shows "map_of (cache s') k = Some p"
proof -
  consider
    (blank) "s' = s"
  | (hit) v where "map_of (cache s) (hash E (strip d)) = Some v"
      "cache s' = filter (\<lambda>q. fst q \<noteq> hash E (strip d)) (cache s) @ [(hash E (strip d), v)]"
  | (failed) "cache s' = cache s"
  | (miss) v where "\<not> od_contains (hash E (strip d)) (cache s)"
      "cache s' = stored (hash E (strip d)) v s"
    using classify_cases [OF assms(3)] by (auto split: sum.splits)
  then show ?thesis
  proof cases
    case blank
    with assms(2) show ?thesis by simp
  next
    case hit
    show ?thesis
    proof (cases "k = hash E (strip d)")
      case True
      with hit assms(2) show ?thesis by (simp add: map_of_moved_same del: map_of_append)
    next
      case False
      with hit assms(2) show ?thesis by (simp add: map_of_moved_other del: map_of_append)
    qed
  next
    case failed
    with assms(2) show ?thesis by simp
  next
    case miss
    with stored_keeps_value [OF assms(1,2) miss(1)] assms(4) show ?thesis by simp
  qed
qed

lemma stays_cached_now: "stays_cached E k ds s \<Longrightarrow> od_contains k (cache s)"
  by (cases ds) auto

lemma classify_each_keeps_value:
  assumes "distinct (map fst (cache s))" and "map_of (cache s) k = Some p"
    and "stays_cached E k ds s" and "classify_each E ds s = (rs, s')"
  shows "map_of (cache s') k = Some p"
  using assms
proof (induction ds arbitrary: s rs)
  case Nil
  then show ?case by simp
next
  case (Cons d ds)
  obtain r s1 where step: "classify E d s = (r, s1)" by (cases "classify E d s") auto
  obtain rs1 where rest: "classify_each E ds s1 = (rs1, s')"
    using Cons.prems(4) step by (auto split: prod.splits)
  from Cons.prems(3) step have kept: "stays_cached E k ds s1" by simp
  have "distinct (map fst (cache s1))"
    using Cons.prems(1) step by (rule classify_distinct)
  moreover have "map_of (cache s1) k = Some p"
    using Cons.prems(1,2) step stays_cached_now [OF kept] by (rule classify_keeps_value)
  ultimately show ?case using kept rest by (rule Cons.IH)
qed

lemma classify_success_stays:
  assumes "0 < cache_size s" and "classify E d s = (Inr p, s')"
  shows "od_contains (hash E (strip d)) (cache s')"
proof -
  consider
    (hit) v where "cache s' = filter (\<lambda>q. fst q \<noteq> hash E (strip d)) (cache s)
                              @ [(hash E (strip d), v)]"
  | (miss) "\<not> od_contains (hash E (strip d)) (cache s)"
      "cache s' = stored (hash E (strip d)) p s"
    using classify_cases [OF assms(2)] by auto
  then show ?thesis
  proof cases
    case hit
    then show ?thesis by (simp add: od_contains_def)
  next
    case miss
    with stored_positive_capacity [OF miss(1) assms(1)] show ?thesis by simp
  qed
qed

text \<open>
  C5. After a call \<^verbatim>\<open>classify(T)\<close> that returned a pair, and any run of further calls
  during which the entry of \<open>T\<close> is not evicted, \<^verbatim>\<open>classify(T)\<close> returns the same pair
  and changes nothing but the order of the cache: the log of requests and the log of
  delays are as before, so no request is sent. (Right after the first call the entry is
  in the cache whenever the capacity is positive: \<open>classify_success_stays\<close>.)
\<close>

theorem classify_twice:
  assumes "distinct (map fst (cache s))"
    and "classify E T s = (Inr p, s1)"
    and "stays_cached E (hash E (strip T)) ds s1"
    and "classify_each E ds s1 = (rs, s2)"
  shows "classify E T s2 =
     (Inr p, s2\<lparr>cache := filter (\<lambda>q. fst q \<noteq> hash E (strip T)) (cache s2)
                           @ [(hash E (strip T), p)]\<rparr>)"
proof -
  have d1: "distinct (map fst (cache s1))"
    using assms(1,2) by (rule classify_distinct)
  from classify_success_cached [OF assms(2) stays_cached_now [OF assms(3)]]
  have T: "strip T \<noteq> []" and v1: "map_of (cache s1) (hash E (strip T)) = Some p"
    by simp_all
  have "map_of (cache s2) (hash E (strip T)) = Some p"
    using d1 v1 assms(3,4) by (rule classify_each_keeps_value)
  with T show ?thesis by (rule classify_hit)
qed

theorem classify_twice_witness:
  "classify (stub_env fickle_model) ''a smart water bottle''
     \<lparr>calls = [''Classify: a robot Return JSON.'',
               ''Classify: a smart water bottle Return JSON.''],
      sleeps = [],
      cache = [(''0fb0dffd44bf7132'', JStr ''Has some Grammar'', JStr ''Prototype Status''),
               (''17fac858a9d83ac1'', JStr ''Pretty Good'', JStr ''Some Stuff'')],
      cache_size = 50, max_retries = 2\<rparr>
   = (Inr (JStr ''Has some Grammar'', JStr ''Prototype Status''),
      \<lparr>calls = [''Classify: a robot Return JSON.'',
                ''Classify: a smart water bottle Return JSON.''],
       sleeps = [],
       cache = [(''17fac858a9d83ac1'', JStr ''Pretty Good'', JStr ''Some Stuff''),
                (''0fb0dffd44bf7132'', JStr ''Has some Grammar'', JStr ''Prototype Status'')],
       cache_size = 50, max_retries = 2\<rparr>)"
proof -
  let ?E = "stub_env fickle_model"
  let ?T = "''a smart water bottle''"
  let ?p = "(JStr ''Has some Grammar'', JStr ''Prototype Status'')"
  let ?s1 = "\<lparr>calls = [''Classify: a smart water bottle Return JSON.''],
      sleeps = [],
      cache = [(''0fb0dffd44bf7132'', JStr ''Has some Grammar'', JStr ''Prototype Status'')],
      cache_size = 50, max_retries = 2\<rparr>"
  let ?s2 = "\<lparr>calls = [''Classify: a robot Return JSON.'',
               ''Classify: a smart water bottle Return JSON.''],
      sleeps = [],
      cache = [(''0fb0dffd44bf7132'', JStr ''Has some Grammar'', JStr ''Prototype Status''),
               (''17fac858a9d83ac1'', JStr ''Pretty Good'', JStr ''Some Stuff'')],
      cache_size = 50, max_retries = 2\<rparr>"
  have wf: "distinct (map fst (cache (new_classifier 2 50)))"
    by code_simp
  have first: "classify ?E ?T (new_classifier 2 50) = (Inr ?p, ?s1)"
    by code_simp
  have kept: "stays_cached ?E (hash ?E (strip ?T)) [''a robot''] ?s1"
    by code_simp
  have between: "classify_each ?E [''a robot''] ?s1
      = ([Inr (JStr ''Pretty Good'', JStr ''Some Stuff'')], ?s2)"
    by code_simp
  have "classify ?E ?T ?s2
      = (Inr ?p, ?s2\<lparr>cache := filter (\<lambda>q. fst q \<noteq> hash ?E (strip ?T)) (cache ?s2)
                                @ [(hash ?E (strip ?T), ?p)]\<rparr>)"
    by (rule classify_twice [OF wf first kept between])
  also have "\<dots> = (Inr ?p,
      \<lparr>calls = [''Classify: a robot Return JSON.'',
                ''Classify: a smart water bottle Return JSON.''],
       sleeps = [],
       cache = [(''17fac858a9d83ac1'', JStr ''Pretty Good'', JStr ''Some Stuff''),
                (''0fb0dffd44bf7132'', JStr ''Has some Grammar'', JStr ''Prototype Status'')],
       cache_size = 50, max_retries = 2\<rparr>)"
    by code_simp
  finally show ?thesis .
qed

section \<open>The synchronous path\<close>

text \<open>The synchronous path is the asynchronous one run with the synchronous client.\<close>

lemma response_result_client [simp]:
  "response_result (E\<lparr>async_create := f\<rparr>) out = response_result E out"
  by (simp add: response_result_def split: outcome.splits list.splits option.splits)

lemma hash_client [simp]: "hash (E\<lparr>async_create := f\<rparr>) t = hash E t"
  by (simp add: hash_def)

lemma format_prompt_client [simp]:
  "format_prompt (E\<lparr>async_create := f\<rparr>) t = format_prompt E t"
  by (simp add: format_prompt_def)

lemma classify_sync_for_as_classify_for:
  "classify_sync_for E p k atts lerr s
     = classify_for (E\<lparr>async_create := sync_create E\<rparr>) p k atts lerr s"
  by (induction atts arbitrary: lerr s)
    (simp_all add: classify_try_cases classify_sync_try_cases split: sum.splits)

lemma classify_sync_as_classify:
  "classify_sync E d s = classify (E\<lparr>async_create := sync_create E\<rparr>) d s"
  by (simp add: classify_sync_def classify_def classify_sync_for_as_classify_for Let_def)

text \<open>
  C10, as the code has it. \<^verbatim>\<open>classify_sync\<close> is \<^verbatim>\<open>classify\<close> run with the synchronous
  client: the two agree whenever the clients answer alike, and on every cached input.
  After a successful call of one, the other returns the same pair from the cache with no
  request, provided the entry is still in the cache, which is so right after the first
  call when the capacity is positive.
\<close>

theorem classify_sync_shares_cache:
  "(sync_create E = async_create E \<longrightarrow> classify_sync E T s = classify E T s)
   \<and> (od_contains (hash E (strip T)) (cache s) \<longrightarrow> classify_sync E T s = classify E T s)
   \<and> (classify E T s = (Inr p, s1)
        \<and> (0 < cache_size s \<or> od_contains (hash E (strip T)) (cache s1))
      \<longrightarrow> classify_sync E T s1 =
            (Inr p, s1\<lparr>cache := filter (\<lambda>q. fst q \<noteq> hash E (strip T)) (cache s1)
                                  @ [(hash E (strip T), p)]\<rparr>))
   \<and> (classify_sync E T s = (Inr p, s1)
        \<and> (0 < cache_size s \<or> od_contains (hash E (strip T)) (cache s1))
      \<longrightarrow> classify E T s1 =
            (Inr p, s1\<lparr>cache := filter (\<lambda>q. fst q \<noteq> hash E (strip T)) (cache s1)
                                  @ [(hash E (strip T), p)]\<rparr>))"
proof (intro conjI impI)
  assume "sync_create E = async_create E"
  then have "E\<lparr>async_create := sync_create E\<rparr> = E" by simp
  then show "classify_sync E T s = classify E T s"
    by (simp add: classify_sync_as_classify)
next
  assume "od_contains (hash E (strip T)) (cache s)"
  then show "classify_sync E T s = classify E T s"
    by (simp add: classify_sync_def classify_def Let_def)
next
  let ?E' = "E\<lparr>async_create := sync_create E\<rparr>"
  assume a: "classify E T s = (Inr p, s1)
        \<and> (0 < cache_size s \<or> od_contains (hash E (strip T)) (cache s1))"
  then have run: "classify E T s = (Inr p, s1)" by simp
  from a have "od_contains (hash E (strip T)) (cache s1)"
    using classify_success_stays [OF _ run] by blast
  from classify_success_cached [OF run this]
  have "strip T \<noteq> []" and "map_of (cache s1) (hash ?E' (strip T)) = Some p"
    by simp_all
  from classify_hit [OF this]
  show "classify_sync E T s1 =
            (Inr p, s1\<lparr>cache := filter (\<lambda>q. fst q \<noteq> hash E (strip T)) (cache s1)
                                  @ [(hash E (strip T), p)]\<rparr>)"
    by (simp add: classify_sync_as_classify)
next
  let ?E' = "E\<lparr>async_create := sync_create E\<rparr>"
  assume a: "classify_sync E T s = (Inr p, s1)
        \<and> (0 < cache_size s \<or> od_contains (hash E (strip T)) (cache s1))"
  then have run: "classify ?E' T s = (Inr p, s1)" by (simp add: classify_sync_as_classify)
  from a have "od_contains (hash ?E' (strip T)) (cache s1)"
    using classify_success_stays [OF _ run] by auto
  from classify_success_cached [OF run this]
  have "strip T \<noteq> []" and "map_of (cache s1) (hash E (strip T)) = Some p"
    by simp_all
  then show "classify E T s1 =
            (Inr p, s1\<lparr>cache := filter (\<lambda>q. fst q \<noteq> hash E (strip T)) (cache s1)
                                  @ [(hash E (strip T), p)]\<rparr>)"
    by (rule classify_hit)
qed

theorem classify_sync_shares_cache_witness:
  "classify_sync (stub_env fickle_model) ''a smart water bottle'' (new_classifier 2 50)
     = classify (stub_env fickle_model) ''a smart water bottle'' (new_classifier 2 50)
   \<and> classify_sync (stub_env fickle_model) ''a smart water bottle''
       \<lparr>calls = [''Classify: a smart water bottle Return JSON.''],
        sleeps = [],
        cache = [(''0fb0dffd44bf7132'', JStr ''Has some Grammar'', JStr ''Prototype Status'')],
        cache_size = 50, max_retries = 2\<rparr>
     = (Inr (JStr ''Has some Grammar'', JStr ''Prototype Status''),
        \<lparr>calls = [''Classify: a smart water bottle Return JSON.''],
         sleeps = [],
         cache = [(''0fb0dffd44bf7132'', JStr ''Has some Grammar'', JStr ''Prototype Status'')],
         cache_size = 50, max_retries = 2\<rparr>)
   \<and> classify (stub_env fickle_model) ''a smart water bottle''
       \<lparr>calls = [''Classify: a smart water bottle Return JSON.''],
        sleeps = [],
        cache = [(''0fb0dffd44bf7132'', JStr ''Has some Grammar'', JStr ''Prototype Status'')],
        cache_size = 50, max_retries = 2\<rparr>
     = (Inr (JStr ''Has some Grammar'', JStr ''Prototype Status''),
        \<lparr>calls = [''Classify: a smart water bottle Return JSON.''],
         sleeps = [],
         cache = [(''0fb0dffd44bf7132'', JStr ''Has some Grammar'', JStr ''Prototype Status'')],
         cache_size = 50, max_retries = 2\<rparr>)"
proof -
  let ?E = "stub_env fickle_model"
  let ?T = "''a smart water bottle''"
  let ?s = "new_classifier 2 50"
  let ?p = "(JStr ''Has some Grammar'', JStr ''Prototype Status'')"
  let ?s1 = "\<lparr>calls = [''Classify: a smart water bottle Return JSON.''],
      sleeps = [],
      cache = [(''0fb0dffd44bf7132'', JStr ''Has some Grammar'', JStr ''Prototype Status'')],
      cache_size = 50, max_retries = 2\<rparr>"
  let ?moved = "?s1\<lparr>cache := filter (\<lambda>q. fst q \<noteq> hash ?E (strip ?T)) (cache ?s1)
                                @ [(hash ?E (strip ?T), ?p)]\<rparr>"
  note inst = classify_sync_shares_cache [of ?E ?T ?s ?p ?s1]
  have same: "sync_create ?E = async_create ?E"
    by (simp add: stub_env_def)
  have cached: "od_contains (hash ?E (strip ?T)) (cache ?s1)"
    by code_simp
  have run: "classify ?E ?T ?s = (Inr ?p, ?s1)
      \<and> (0 < cache_size ?s \<or> od_contains (hash ?E (strip ?T)) (cache ?s1))"
    by code_simp
  have run_sync: "classify_sync ?E ?T ?s = (Inr ?p, ?s1)
      \<and> (0 < cache_size ?s \<or> od_contains (hash ?E (strip ?T)) (cache ?s1))"
    by code_simp
  have ev: "(Inr ?p :: exn + json \<times> json, ?moved) = (Inr ?p, ?s1)"
    by code_simp
  have a: "classify_sync ?E ?T ?s = classify ?E ?T ?s"
    using inst same by blast
  have b: "classify_sync ?E ?T ?s1 = (Inr ?p, ?moved)"
    using inst run by blast
  have c: "classify ?E ?T ?s1 = (Inr ?p, ?moved)"
    using inst run_sync by blast
  show ?thesis
    using a b c by (simp only: ev)
qed

text \<open>
  The claim as stated fails when the capacity is zero: the entry stored by
  \<^verbatim>\<open>classify(T)\<close> is evicted by the same call, \<^verbatim>\<open>classify_sync(T)\<close> then sends a
  request of its own, and returns what the model answers this time.
\<close>

theorem classify_sync_after_classify_counterexample:
  "classify (stub_env fickle_model) ''a smart water bottle'' (new_classifier 2 0)
     = (Inr (JStr ''Has some Grammar'', JStr ''Prototype Status''),
        \<lparr>calls = [''Classify: a smart water bottle Return JSON.''],
         sleeps = [], cache = [], cache_size = 0, max_retries = 2\<rparr>)
   \<and> classify_sync (stub_env fickle_model) ''a smart water bottle''
        \<lparr>calls = [''Classify: a smart water bottle Return JSON.''],
         sleeps = [], cache = [], cache_size = 0, max_retries = 2\<rparr>
     = (Inr (JStr ''Pretty Good'', JStr ''Some Stuff''),
        \<lparr>calls = [''Classify: a smart water bottle Return JSON.'',
                  ''Classify: a smart water bottle Return JSON.''],
         sleeps = [], cache = [], cache_size = 0, max_retries = 2\<rparr>)"
  by code_simp

section \<open>Least-recently-used eviction\<close>

lemma od_contains_stored:
  assumes "\<not> od_contains k' (cache s)" and "od_contains k (stored k' v s)"
  shows "k = k' \<or> od_contains k (cache s)"
proof -
  have "set (tl (cache s @ [(k', v)])) \<subseteq> set (cache s @ [(k', v)])"
    by (cases "cache s") auto
  with assms(2) show ?thesis
    by (auto simp: stored_absent [OF assms(1)] od_contains_def split: if_splits)
qed

lemma classify_each_misses:
  assumes "distinct (map fst (cache s) @ map (\<lambda>d. hash E (strip d)) ds)"
    and "int (length (cache s)) \<le> cache_size s"
    and "classify_each E ds s = (rs, s')"
    and "\<forall>r \<in> set rs. \<not> isl r"
  shows "map fst (cache s')
     = drop (length (cache s) + length ds - nat (cache_size s))
         (map fst (cache s) @ map (\<lambda>d. hash E (strip d)) ds)"
  using assms
proof (induction ds arbitrary: s rs)
  case Nil
  then show ?case by simp
next
  case (Cons d ds)
  let ?k = "hash E (strip d)"
  let ?K = "map fst (cache s)"
  let ?rest = "map (\<lambda>d. hash E (strip d)) ds"
  obtain r s1 where step: "classify E d s = (r, s1)" by (cases "classify E d s") auto
  obtain rs1 where rest: "classify_each E ds s1 = (rs1, s')" and rs: "rs = r # rs1"
    using Cons.prems(3) step by (auto split: prod.splits)
  from Cons.prems(4) rs obtain v where r: "r = Inr v" and ok: "\<forall>r \<in> set rs1. \<not> isl r"
    by (cases r) auto
  from Cons.prems(1) have fresh: "\<not> od_contains ?k (cache s)"
    by (auto simp: od_contains_def)
  from classify_cases [OF step] r fresh
  have c1: "cache s1 = stored ?k v s" and size1: "cache_size s1 = cache_size s"
    by (auto simp: od_contains_map_of)
  show ?case
  proof (cases "cache_size s < int (length (cache s)) + 1")
    case False
    then have keys1: "map fst (cache s1) = ?K @ [?k]"
      by (simp add: c1 stored_absent [OF fresh])
    have "distinct (map fst (cache s1) @ ?rest)"
      using Cons.prems(1) by (simp add: keys1)
    moreover have "int (length (cache s1)) \<le> cache_size s1"
      using False by (simp add: c1 stored_absent [OF fresh] size1)
    ultimately have "map fst (cache s')
       = drop (length (cache s1) + length ds - nat (cache_size s1)) (map fst (cache s1) @ ?rest)"
      using rest ok by (rule Cons.IH)
    moreover have "length (cache s1) = Suc (length (cache s))"
      using False by (simp add: c1 stored_absent [OF fresh])
    ultimately show ?thesis by (simp add: keys1 size1)
  next
    case True
    with Cons.prems(2) have full: "nat (cache_size s) = length (cache s)" by simp
    from True have keys1: "map fst (cache s1) = tl (?K @ [?k])"
      by (simp add: c1 stored_absent [OF fresh] map_tl)
    have "distinct (tl (?K @ [?k]) @ ?rest)"
      using Cons.prems(1) by (cases "cache s") auto
    then have "distinct (map fst (cache s1) @ ?rest)" by (simp only: keys1)
    moreover have len1: "length (cache s1) = length (cache s)"
      using True by (simp add: c1 stored_absent [OF fresh])
    then have "int (length (cache s1)) \<le> cache_size s1"
      using Cons.prems(2) by (simp add: size1)
    ultimately have "map fst (cache s')
       = drop (length (cache s1) + length ds - nat (cache_size s1)) (map fst (cache s1) @ ?rest)"
      using rest ok by (rule Cons.IH)
    then have "map fst (cache s') = drop (length ds) (tl (?K @ [?k]) @ ?rest)"
      by (simp only: keys1 len1 size1 full) simp
    also have "tl (?K @ [?k]) @ ?rest = tl (?K @ ?k # ?rest)"
      by (cases "cache s") auto
    also have "drop (length ds) (tl (?K @ ?k # ?rest)) = drop (Suc (length ds)) (?K @ ?k # ?rest)"
      by (simp only: drop_Suc)
    finally show ?thesis by (simp add: full)
  qed
qed

lemma parse_response_and_update_cache_success:
  assumes "parse_response_and_update_cache E txt k t = (Inr w, t')"
  shows "cache t' = stored k w t"
  using assms
  by (auto simp: parse_response_and_update_cache_cases split: sum.splits)

text \<open>
  C6. The constructor's default capacity is 50. A hit moves the entry to the end of the
  order, the most recently used place. A store of a new key appends the entry and, when
  the length then exceeds the capacity, removes exactly the first entry, the least
  recently used one. After \<open>C + 1\<close> successful calls on texts with distinct keys, from
  an empty cache of capacity \<open>C\<close>, the key of the first text is gone and the keys of all
  the others are present, in the order of the calls.
\<close>

theorem lru_cache:
  "cache default_classifier = [] \<and> cache_size default_classifier = 50
   \<and> (strip d \<noteq> [] \<and> map_of (cache s) (hash E (strip d)) = Some v
      \<longrightarrow> classify E d s =
            (Inr v, s\<lparr>cache := filter (\<lambda>q. fst q \<noteq> hash E (strip d)) (cache s)
                                 @ [(hash E (strip d), v)]\<rparr>))
   \<and> (\<not> od_contains k (cache t)
        \<and> parse_response_and_update_cache E txt k t = (Inr w, t')
      \<longrightarrow> cache t' = (if cache_size t < int (length (cache t)) + 1
                      then tl (cache t @ [(k, w)]) else cache t @ [(k, w)]))
   \<and> (cache u = [] \<and> cache_size u = int C \<and> length ds = C + 1
        \<and> distinct (map (\<lambda>d. hash E (strip d)) ds)
        \<and> classify_each E ds u = (rs, u') \<and> (\<forall>r \<in> set rs. \<not> isl r)
      \<longrightarrow> map fst (cache u') = map (\<lambda>d. hash E (strip d)) (tl ds)
          \<and> \<not> od_contains (hash E (strip (hd ds))) (cache u')
          \<and> (\<forall>d \<in> set (tl ds). od_contains (hash E (strip d)) (cache u')))"
proof (intro conjI impI)
  show "cache default_classifier = []" "cache_size default_classifier = 50"
    by (simp_all add: default_classifier_def new_classifier_def)
next
  assume "strip d \<noteq> [] \<and> map_of (cache s) (hash E (strip d)) = Some v"
  then show "classify E d s =
            (Inr v, s\<lparr>cache := filter (\<lambda>q. fst q \<noteq> hash E (strip d)) (cache s)
                                 @ [(hash E (strip d), v)]\<rparr>)"
    using classify_hit by blast
next
  assume a: "\<not> od_contains k (cache t)
        \<and> parse_response_and_update_cache E txt k t = (Inr w, t')"
  then have "cache t' = stored k w t"
    by (intro parse_response_and_update_cache_success [of E "txt"]) simp
  also have "stored k w t = (if cache_size t < int (length (cache t)) + 1
                      then tl (cache t @ [(k, w)]) else cache t @ [(k, w)])"
    using a by (intro stored_absent) simp
  finally show "cache t' = (if cache_size t < int (length (cache t)) + 1
                      then tl (cache t @ [(k, w)]) else cache t @ [(k, w)])" .
next
  assume a: "cache u = [] \<and> cache_size u = int C \<and> length ds = C + 1
        \<and> distinct (map (\<lambda>d. hash E (strip d)) ds)
        \<and> classify_each E ds u = (rs, u') \<and> (\<forall>r \<in> set rs. \<not> isl r)"
  then have "map fst (cache u')
     = drop (length (cache u) + length ds - nat (cache_size u))
         (map fst (cache u) @ map (\<lambda>d. hash E (strip d)) ds)"
    by (intro classify_each_misses [of u E ds rs u']) simp_all
  with a have keys: "map fst (cache u') = map (\<lambda>d. hash E (strip d)) (tl ds)"
    by (simp add: drop_Suc map_tl)
  from a obtain d0 ds0 where ds: "ds = d0 # ds0" by (cases ds) auto
  show "map fst (cache u') = map (\<lambda>d. hash E (strip d)) (tl ds)" by (rule keys)
  have set_keys: "fst ` set (cache u') = (\<lambda>d. hash E (strip d)) ` set (tl ds)"
    using keys by (metis list.set_map)
  from a ds show "\<not> od_contains (hash E (strip (hd ds))) (cache u')"
    by (auto simp: od_contains_def set_keys)
  show "\<forall>d \<in> set (tl ds). od_contains (hash E (strip d)) (cache u')"
    by (auto simp: od_contains_def set_keys)
qed

theorem lru_cache_witness:
  \<open>classify (stub_env good_model) ''alpha''
      \<lparr>calls = [], sleeps = [],
       cache = [(''2c1743a391305fbf'', JStr ''Has some Grammar'', JStr ''Prototype Status''),
                (''987bcab01b929eb2'', JStr ''Has some Grammar'', JStr ''Prototype Status'')],
       cache_size = 2, max_retries = 2\<rparr>
    = (Inr (JStr ''Has some Grammar'', JStr ''Prototype Status''),
       \<lparr>calls = [], sleeps = [],
        cache = [(''987bcab01b929eb2'', JStr ''Has some Grammar'', JStr ''Prototype Status''),
                 (''2c1743a391305fbf'', JStr ''Has some Grammar'', JStr ''Prototype Status'')],
        cache_size = 2, max_retries = 2\<rparr>)
   \<and> cache (snd (parse_response_and_update_cache (stub_env good_model)
         ''{"X_Axis_Rubric_Category": "Has some Grammar", "Y_Axis_Rubric_Category": "Prototype Status"}''
         ''05b048d7242cb7b8''
         \<lparr>calls = [], sleeps = [],
          cache = [(''2c1743a391305fbf'', JStr ''Has some Grammar'', JStr ''Prototype Status''),
                   (''987bcab01b929eb2'', JStr ''Has some Grammar'', JStr ''Prototype Status'')],
          cache_size = 2, max_retries = 2\<rparr>))
     = [(''987bcab01b929eb2'', JStr ''Has some Grammar'', JStr ''Prototype Status''),
        (''05b048d7242cb7b8'', JStr ''Has some Grammar'', JStr ''Prototype Status'')]
   \<and> map fst (cache (snd (classify_each (stub_env good_model) [''alpha'', ''beta'', ''gamma'']
         (new_classifier 2 2))))
     = [''987bcab01b929eb2'', ''05b048d7242cb7b8'']
   \<and> \<not> od_contains ''2c1743a391305fbf'' (cache (snd (classify_each (stub_env good_model)
         [''alpha'', ''beta'', ''gamma''] (new_classifier 2 2))))
   \<and> od_contains ''987bcab01b929eb2'' (cache (snd (classify_each (stub_env good_model)
         [''alpha'', ''beta'', ''gamma''] (new_classifier 2 2))))
   \<and> od_contains ''05b048d7242cb7b8'' (cache (snd (classify_each (stub_env good_model)
         [''alpha'', ''beta'', ''gamma''] (new_classifier 2 2))))\<close>
proof -
  let ?E = "stub_env good_model"
  let ?g = "(JStr ''Has some Grammar'', JStr ''Prototype Status'')"
  let ?two = "\<lparr>calls = [], sleeps = [],
       cache = [(''2c1743a391305fbf'', JStr ''Has some Grammar'', JStr ''Prototype Status''),
                (''987bcab01b929eb2'', JStr ''Has some Grammar'', JStr ''Prototype Status'')],
       cache_size = 2, max_retries = 2\<rparr>"
  let ?txt = \<open>''{"X_Axis_Rubric_Category": "Has some Grammar", "Y_Axis_Rubric_Category": "Prototype Status"}''\<close>
  let ?ds = "[''alpha'', ''beta'', ''gamma'']"
  let ?u = "new_classifier 2 2"
  let ?run = "classify_each ?E ?ds ?u"
  let ?t' = "snd (parse_response_and_update_cache ?E ?txt ''05b048d7242cb7b8'' ?two)"
  note inst = lru_cache [of "''alpha''" ?two ?E ?g "''05b048d7242cb7b8''" ?two ?txt ?g ?t' ?u 2 ?ds
      "fst ?run" "snd ?run"]
  have hit: "strip ''alpha'' \<noteq> [] \<and> map_of (cache ?two) (hash ?E (strip ''alpha'')) = Some ?g"
    by code_simp
  have put: "\<not> od_contains ''05b048d7242cb7b8'' (cache ?two)
      \<and> parse_response_and_update_cache ?E ?txt ''05b048d7242cb7b8'' ?two = (Inr ?g, ?t')"
    by code_simp
  have seq: "cache ?u = [] \<and> cache_size ?u = int 2 \<and> length ?ds = 2 + 1
        \<and> distinct (map (\<lambda>d. hash ?E (strip d)) ?ds)
        \<and> ?run = (fst ?run, snd ?run) \<and> (\<forall>r \<in> set (fst ?run). \<not> isl r)"
    by code_simp
  have a: "classify ?E ''alpha'' ?two =
      (Inr ?g, ?two\<lparr>cache := filter (\<lambda>q. fst q \<noteq> hash ?E (strip ''alpha'')) (cache ?two)
                                 @ [(hash ?E (strip ''alpha''), ?g)]\<rparr>)"
    using inst hit by blast
  have b: "cache ?t' = (if cache_size ?two < int (length (cache ?two)) + 1
                      then tl (cache ?two @ [(''05b048d7242cb7b8'', ?g)]) else cache ?two @ [(''05b048d7242cb7b8'', ?g)])"
    using inst put by blast
  have c: "map fst (cache (snd ?run)) = map (\<lambda>d. hash ?E (strip d)) (tl ?ds)
          \<and> \<not> od_contains (hash ?E (strip (hd ?ds))) (cache (snd ?run))
          \<and> (\<forall>d \<in> set (tl ?ds). od_contains (hash ?E (strip d)) (cache (snd ?run)))"
    using inst seq by blast
  have ev_a: "(Inr ?g :: exn + json \<times> json,
        ?two\<lparr>cache := filter (\<lambda>q. fst q \<noteq> hash ?E (strip ''alpha'')) (cache ?two)
                                 @ [(hash ?E (strip ''alpha''), ?g)]\<rparr>)
      = (Inr ?g, \<lparr>calls = [], sleeps = [],
        cache = [(''987bcab01b929eb2'', JStr ''Has some Grammar'', JStr ''Prototype Status''),
                 (''2c1743a391305fbf'', JStr ''Has some Grammar'', JStr ''Prototype Status'')],
        cache_size = 2, max_retries = 2\<rparr>)"
    by code_simp
  have ev_b: "(if cache_size ?two < int (length (cache ?two)) + 1
                      then tl (cache ?two @ [(''05b048d7242cb7b8'', ?g)]) else cache ?two @ [(''05b048d7242cb7b8'', ?g)])
      = [(''987bcab01b929eb2'', JStr ''Has some Grammar'', JStr ''Prototype Status''),
         (''05b048d7242cb7b8'', JStr ''Has some Grammar'', JStr ''Prototype Status'')]"
    by code_simp
  have ev_c: "map (\<lambda>d. hash ?E (strip d)) (tl ?ds) = [''987bcab01b929eb2'', ''05b048d7242cb7b8'']"
      "hash ?E (strip (hd ?ds)) = ''2c1743a391305fbf''"
    by code_simp+
  from c ev_c have c': "map fst (cache (snd ?run)) = [''987bcab01b929eb2'', ''05b048d7242cb7b8'']
      \<and> \<not> od_contains ''2c1743a391305fbf'' (cache (snd ?run))
      \<and> od_contains ''987bcab01b929eb2'' (cache (snd ?run))
      \<and> od_contains ''05b048d7242cb7b8'' (cache (snd ?run))"
    by (simp add: od_contains_def)
  from a ev_a have a': "classify ?E ''alpha'' ?two
      = (Inr ?g, \<lparr>calls = [], sleeps = [],
        cache = [(''987bcab01b929eb2'', JStr ''Has some Grammar'', JStr ''Prototype Status''),
                 (''2c1743a391305fbf'', JStr ''Has some Grammar'', JStr ''Prototype Status'')],
        cache_size = 2, max_retries = 2\<rparr>)"
    by (rule trans)
  from b ev_b have b': "cache ?t'
      = [(''987bcab01b929eb2'', JStr ''Has some Grammar'', JStr ''Prototype Status''),
         (''05b048d7242cb7b8'', JStr ''Has some Grammar'', JStr ''Prototype Status'')]"
    by (rule trans)
  from a' b' c' show ?thesis by blast
qed

section \<open>Truncation of the prompt\<close>

text \<open>
  C9. The key is the digest of the whole stripped text, the prompt holds its first 2000
  characters. For two texts whose stripped forms agree on the first 2000 characters and
  whose keys differ (so that the texts differ beyond that bound), neither cached: the
  prompts are the same, and each of the two calls, the second after the first, sends
  its own requests to the model.
\<close>

theorem long_texts_share_prompt_not_cache:
  assumes "take 2000 (strip d1) = take 2000 (strip d2)"
    and "hash E (strip d1) \<noteq> hash E (strip d2)"
    and "\<not> od_contains (hash E (strip d1)) (cache s)"
    and "\<not> od_contains (hash E (strip d2)) (cache s)"
    and "0 < max_retries s"
    and "classify E d1 s = (r1, s1)"
    and "classify E d2 s1 = (r2, s2)"
  shows "format_prompt E (take 2000 (strip d1)) = format_prompt E (take 2000 (strip d2))
     \<and> strip d1 \<noteq> strip d2
     \<and> (\<exists>n1 n2. 0 < n1 \<and> 0 < n2
          \<and> calls s1 = replicate n1 (format_prompt E (take 2000 (strip d1))) @ calls s
          \<and> calls s2 = replicate n2 (format_prompt E (take 2000 (strip d2))) @ calls s1)"
proof -
  from assms(2) have differ: "strip d1 \<noteq> strip d2" by auto
  with assms(1) have ne1: "strip d1 \<noteq> []" and ne2: "strip d2 \<noteq> []" by auto
  from classify_cases [OF assms(6)] ne1 assms(3)
  have first: "(\<exists>n. n \<le> nat (max_retries s) \<and> (0 < max_retries s \<longrightarrow> 0 < n)
                 \<and> calls s1 = replicate n (format_prompt E (take 2000 (strip d1))) @ calls s)
           \<and> cache_size s1 = cache_size s \<and> max_retries s1 = max_retries s
           \<and> (case r1 of
                 Inl e \<Rightarrow> cache s1 = cache s
               | Inr v \<Rightarrow> cache s1 = stored (hash E (strip d1)) v s)"
    by (auto simp: od_contains_map_of)
  with assms(5) obtain n1 where n1: "0 < n1"
      "calls s1 = replicate n1 (format_prompt E (take 2000 (strip d1))) @ calls s"
    by blast
  from first have retries1: "max_retries s1 = max_retries s" by simp
  have miss2: "\<not> od_contains (hash E (strip d2)) (cache s1)"
  proof (cases r1)
    case (Inl e)
    with first assms(4) show ?thesis by simp
  next
    case (Inr v)
    with first have "cache s1 = stored (hash E (strip d1)) v s" by simp
    with od_contains_stored [OF assms(3), of "hash E (strip d2)" v] assms(2,4)
    show ?thesis by auto
  qed
  from classify_cases [OF assms(7)] ne2 miss2
  have "\<exists>n. n \<le> nat (max_retries s1) \<and> (0 < max_retries s1 \<longrightarrow> 0 < n)
                 \<and> calls s2 = replicate n (format_prompt E (take 2000 (strip d2))) @ calls s1"
    by (auto simp: od_contains_map_of)
  with assms(5) retries1 obtain n2 where n2: "0 < n2"
      "calls s2 = replicate n2 (format_prompt E (take 2000 (strip d2))) @ calls s1"
    by auto
  from assms(1) differ n1 n2 show ?thesis by auto
qed

theorem long_texts_share_prompt_not_cache_witness:
  "format_prompt (stub_env good_model) (take 2000 (strip (replicate 2000 (CHR ''a'') @ ''b'')))
     = format_prompt (stub_env good_model)
         (take 2000 (strip (replicate 2000 (CHR ''a'') @ ''c'')))
   \<and> strip (replicate 2000 (CHR ''a'') @ ''b'') \<noteq> strip (replicate 2000 (CHR ''a'') @ ''c'')
   \<and> (\<exists>n1 n2. 0 < n1 \<and> 0 < n2
        \<and> calls (snd (classify (stub_env good_model) (replicate 2000 (CHR ''a'') @ ''b'')
                   (new_classifier 2 50)))
          = replicate n1 (format_prompt (stub_env good_model)
                (take 2000 (strip (replicate 2000 (CHR ''a'') @ ''b''))))
            @ calls (new_classifier 2 50)
        \<and> calls (snd (classify (stub_env good_model) (replicate 2000 (CHR ''a'') @ ''c'')
                   (snd (classify (stub_env good_model) (replicate 2000 (CHR ''a'') @ ''b'')
                      (new_classifier 2 50)))))
          = replicate n2 (format_prompt (stub_env good_model)
                (take 2000 (strip (replicate 2000 (CHR ''a'') @ ''c''))))
            @ calls (snd (classify (stub_env good_model) (replicate 2000 (CHR ''a'') @ ''b'')
                      (new_classifier 2 50))))"
proof -
  let ?E = "stub_env good_model"
  let ?d1 = "replicate 2000 (CHR ''a'') @ ''b''"
  let ?d2 = "replicate 2000 (CHR ''a'') @ ''c''"
  let ?s = "new_classifier 2 50"
  let ?run1 = "classify ?E ?d1 ?s"
  let ?run2 = "classify ?E ?d2 (snd ?run1)"
  have s1: "strip ?d1 = ?d1"
    by (rule strip_unchanged) (simp_all add: isspace_def)
  have s2: "strip ?d2 = ?d2"
    by (rule strip_unchanged) (simp_all add: isspace_def)
  have h1: "take 2000 (strip ?d1) = take 2000 (strip ?d2)"
    by (simp add: s1 s2)
  have long: "stub_md5 t = rev t" if "50 < length t" for t
  proof -
    have "length t \<noteq> 42" "length t \<noteq> 20" "length t \<noteq> 7" "length t \<noteq> 5"
      "length t \<noteq> 4"
      using that by simp_all
    then have "t \<noteq> ''a smart water bottle that tracks hydration''"
      "t \<noteq> ''a smart water bottle''" "t \<noteq> ''a robot''" "t \<noteq> ''alpha''"
      "t \<noteq> ''beta''" "t \<noteq> ''gamma''"
      by fastforce+
    then show ?thesis by (simp only: stub_md5_def if_False)
  qed
  have h2: "hash ?E (strip ?d1) \<noteq> hash ?E (strip ?d2)"
    by (simp add: s1 s2 hash_def stub_env_def long)
  have h3: "\<not> od_contains (hash ?E (strip ?d1)) (cache ?s)"
    by (simp add: od_contains_def new_classifier_def)
  have h4: "\<not> od_contains (hash ?E (strip ?d2)) (cache ?s)"
    by (simp add: od_contains_def new_classifier_def)
  have h5: "0 < max_retries ?s" by (simp add: new_classifier_def)
  have h6: "?run1 = (fst ?run1, snd ?run1)" by simp
  have h7: "?run2 = (fst ?run2, snd ?run2)" by simp
  show ?thesis
    by (rule long_texts_share_prompt_not_cache [OF h1 h2 h3 h4 h5 h6 h7])
qed

section \<open>Batches\<close>

lemma length_filter_update:
  "i < length xs \<Longrightarrow>
     length (filter P (xs[i := y])) + (if P (xs ! i) then 1 else 0)
       = length (filter P xs) + (if P y then 1 else 0)"
proof (induction xs arbitrary: i)
  case Nil
  then show ?case by simp
next
  case (Cons x xs)
  then show ?case by (cases i) auto
qed

lemma batch_step_permits:
  assumes "batch_step b b'"
  shows "in_flight b' + permits b' = in_flight b + permits b"
  using assms
proof (induction rule: batch_step.induct)
  case (enter i b d)
  from length_filter_update [OF enter(1), of is_in_flight "InFlight d"] enter(2,3)
  show ?case by (simp add: in_flight_def)
next
  case (leave i b d r)
  from length_filter_update [OF leave(1), of is_in_flight "Done d r"] leave(2)
  show ?case by (simp add: in_flight_def)
qed

lemma batch_step_descriptions:
  assumes "batch_step b b'"
  shows "map description (workers b') = map description (workers b)"
  using assms
proof (induction rule: batch_step.induct)
  case (enter i b d)
  then have "description (InFlight d) = map description (workers b) ! i" by simp
  then show ?case by (simp add: map_update)
next
  case (leave i b d r)
  then have "description (Done d r) = map description (workers b) ! i" by simp
  then show ?case by (simp add: map_update)
qed

lemma batch_reachable_inv:
  assumes "batch_reachable ds mc b"
  shows "int (in_flight b + permits b) = mc \<and> map description (workers b) = ds"
  using assms
proof (induction rule: batch_reachable.induct)
  case (start ds mc b)
  then show ?case
    by (auto simp: classify_batch_start_def in_flight_def comp_def filter_map split: if_splits)
next
  case (step ds mc b b')
  then show ?case
    using batch_step_permits batch_step_descriptions by simp
qed

lemma gather_positions:
  assumes "gather ws = Some rs"
  shows "length rs = length ws
     \<and> (\<forall>i < length ws. ws ! i = Done (description (ws ! i)) (Inr (rs ! i)))"
  using assms
proof (induction ws arbitrary: rs rule: gather.induct)
  case 1
  then show ?case by simp
next
  case (2 d v ws)
  then obtain vs where vs: "gather ws = Some vs" and rs: "rs = v # vs"
    by (auto split: option.splits)
  from 2(1) [OF vs] show ?case
    by (auto simp: rs nth_Cons split: nat.splits)
qed simp_all

text \<open>
  C7. In every state that a batch can reach, whatever the order in which its workers
  enter and finish: no more than \<open>max_concurrent\<close> workers are in flight; worker \<open>i\<close>
  is the worker of \<open>descriptions[i]\<close>; and a list returned by \<^verbatim>\<open>classify_batch\<close> has
  the length of \<open>descriptions\<close> and holds at \<open>i\<close> the pair that the worker of
  \<open>descriptions[i]\<close> returned.
\<close>

theorem classify_batch_bounded_and_ordered:
  assumes "batch_reachable descriptions max_concurrent b"
  shows "int (in_flight b) \<le> max_concurrent
     \<and> map description (workers b) = descriptions
     \<and> (\<forall>rs. classify_batch_result b = Returned rs
          \<longrightarrow> length rs = length descriptions
              \<and> (\<forall>i < length descriptions.
                    workers b ! i = Done (descriptions ! i) (Inr (rs ! i))))"
proof -
  from batch_reachable_inv [OF assms]
  have total: "int (in_flight b + permits b) = max_concurrent"
    and ds: "map description (workers b) = descriptions"
    by simp_all
  from total have "int (in_flight b) \<le> max_concurrent" by simp
  moreover have "length rs = length descriptions
      \<and> (\<forall>i < length descriptions. workers b ! i = Done (descriptions ! i) (Inr (rs ! i)))"
    if "classify_batch_result b = Returned rs" for rs
  proof -
    from that have g: "gather (workers b) = Some rs"
      by (auto simp: classify_batch_result_def split: option.splits)
    from ds have len: "length (workers b) = length descriptions"
      by (metis length_map)
    from ds have "description (workers b ! i) = descriptions ! i" if "i < length descriptions" for i
      using that len by (metis nth_map)
    with gather_positions [OF g] len show ?thesis by simp
  qed
  ultimately show ?thesis using ds by blast
qed

theorem classify_batch_bounded_and_ordered_witness:
  "int (in_flight \<lparr>workers = [InFlight ''alpha'', InFlight ''beta'', Pending ''gamma''],
                    permits = 0, raised = None\<rparr>) \<le> 2
   \<and> classify_batch_result
        \<lparr>workers = [Done ''alpha'' (Inr (JStr ''x1'', JStr ''y1'')),
                    Done ''beta'' (Inr (JStr ''x2'', JStr ''y2'')),
                    Done ''gamma'' (Inr (JStr ''x3'', JStr ''y3''))],
         permits = 2, raised = None\<rparr>
     = Returned [(JStr ''x1'', JStr ''y1''), (JStr ''x2'', JStr ''y2''), (JStr ''x3'', JStr ''y3'')]
   \<and> [Done ''alpha'' (Inr (JStr ''x1'', JStr ''y1'')),
       Done ''beta'' (Inr (JStr ''x2'', JStr ''y2'')),
       Done ''gamma'' (Inr (JStr ''x3'', JStr ''y3''))] ! 1
     = Done ([''alpha'', ''beta'', ''gamma''] ! 1)
         (Inr ([(JStr ''x1'', JStr ''y1''), (JStr ''x2'', JStr ''y2''), (JStr ''x3'', JStr ''y3'')] ! 1))"
proof -
  let ?ds = "[''alpha'', ''beta'', ''gamma'']"
  let ?r1 = "Inr (JStr ''x1'', JStr ''y1'') :: exn + json \<times> json"
  let ?r2 = "Inr (JStr ''x2'', JStr ''y2'') :: exn + json \<times> json"
  let ?r3 = "Inr (JStr ''x3'', JStr ''y3'') :: exn + json \<times> json"
  let ?rs = "[(JStr ''x1'', JStr ''y1''), (JStr ''x2'', JStr ''y2''), (JStr ''x3'', JStr ''y3'')]"
  let ?b0 = "\<lparr>workers = [Pending ''alpha'', Pending ''beta'', Pending ''gamma''],
             permits = 2, raised = None\<rparr>"
  let ?b1 = "\<lparr>workers = [Pending ''alpha'', InFlight ''beta'', Pending ''gamma''],
             permits = 1, raised = None\<rparr>"
  let ?b2 = "\<lparr>workers = [InFlight ''alpha'', InFlight ''beta'', Pending ''gamma''],
             permits = 0, raised = None\<rparr>"
  let ?b3 = "\<lparr>workers = [InFlight ''alpha'', Done ''beta'' ?r2, Pending ''gamma''],
             permits = 1, raised = None\<rparr>"
  let ?b4 = "\<lparr>workers = [InFlight ''alpha'', Done ''beta'' ?r2, InFlight ''gamma''],
             permits = 0, raised = None\<rparr>"
  let ?b5 = "\<lparr>workers = [InFlight ''alpha'', Done ''beta'' ?r2, Done ''gamma'' ?r3],
             permits = 1, raised = None\<rparr>"
  let ?b6 = "\<lparr>workers = [Done ''alpha'' ?r1, Done ''beta'' ?r2, Done ''gamma'' ?r3],
             permits = 2, raised = None\<rparr>"
  have r0: "batch_reachable ?ds 2 ?b0"
    by (rule batch_reachable.start) (simp add: classify_batch_start_def)
  have "batch_step ?b0 ?b1"
    using batch_step.enter [of 1 ?b0 "''beta''"] by (simp add: numeral_2_eq_2)
  with r0 have r1: "batch_reachable ?ds 2 ?b1" by (rule batch_reachable.step)
  have "batch_step ?b1 ?b2"
    using batch_step.enter [of 0 ?b1 "''alpha''"] by (simp add: numeral_2_eq_2)
  with r1 have r2: "batch_reachable ?ds 2 ?b2" by (rule batch_reachable.step)
  have "batch_step ?b2 ?b3"
    using batch_step.leave [of 1 ?b2 "''beta''" ?r2] by (simp add: numeral_2_eq_2)
  with r2 have r3: "batch_reachable ?ds 2 ?b3" by (rule batch_reachable.step)
  have "batch_step ?b3 ?b4"
    using batch_step.enter [of 2 ?b3 "''gamma''"] by (simp add: numeral_2_eq_2)
  with r3 have r4: "batch_reachable ?ds 2 ?b4" by (rule batch_reachable.step)
  have "batch_step ?b4 ?b5"
    using batch_step.leave [of 2 ?b4 "''gamma''" ?r3] by (simp add: numeral_2_eq_2)
  with r4 have r5: "batch_reachable ?ds 2 ?b5" by (rule batch_reachable.step)
  have "batch_step ?b5 ?b6"
    using batch_step.leave [of 0 ?b5 "''alpha''" ?r1] by (simp add: numeral_2_eq_2)
  with r5 have r6: "batch_reachable ?ds 2 ?b6" by (rule batch_reachable.step)
  have res: "classify_batch_result ?b6 = Returned ?rs"
    by (simp add: classify_batch_result_def)
  from classify_batch_bounded_and_ordered [OF r2]
  have a: "int (in_flight ?b2) \<le> 2" by blast
  from classify_batch_bounded_and_ordered [OF r6] res
  have "\<forall>i < length ?ds. workers ?b6 ! i = Done (?ds ! i) (Inr (?rs ! i))" by blast
  then have "workers ?b6 ! 1 = Done (?ds ! 1) (Inr (?rs ! 1))" by simp
  then have c: "[Done ''alpha'' ?r1, Done ''beta'' ?r2, Done ''gamma'' ?r3] ! 1
      = Done (?ds ! 1) (Inr (?rs ! 1))"
    by (simp only: batch.simps)
  from a res c show ?thesis by blast
qed

end
